(* ===== verification/Prelude.thy ===== *)
theory Prelude
  imports Main "HOL-Library.Multiset" "HOL-Library.Word"
begin

text \<open>
  Shared vocabulary of the face-capture development: the limits of the C++ \<open>int\<close> the
  program stores its face limit in, the prefix test behind \<open>std::string::find(p) == 0\<close>,
  association lists with distinct keys (the capture directory's listing), and the facts
  about lists sorted by a key that the rename command needs. The collections
  \<open>model_defs\<close> and \<open>wf_rules\<close> gather the unfolding facts and the well-formedness
  rules of the components, so that component proofs say \<open>simp add: model_defs\<close>.
\<close>

named_theorems model_defs "definitions of the model's operations, unfolded on concrete inputs"
named_theorems wf_rules "facts that the model's operations keep its states well formed"

section \<open>C++ integer limits\<close>

text \<open>
  The program runs on an LP64 platform: \<open>int\<close> has 32 bits and \<open>long\<close> 64 bits.
  The face limit and the face counter, which the program stores and increments, are
  \<open>int32\<close> words; the values \<open>strtol\<close> and \<open>std::stoi\<close> compute are \<open>int\<close>s
  together with the range predicates \<open>in_int64\<close> and \<open>in_int32\<close>.
\<close>

abbreviation int_max :: int where "int_max \<equiv> 2 ^ 31 - 1"
abbreviation int_min :: int where "int_min \<equiv> - (2 ^ 31)"
abbreviation long_max :: int where "long_max \<equiv> 2 ^ 63 - 1"
abbreviation long_min :: int where "long_min \<equiv> - (2 ^ 63)"

definition in_int32 :: "int \<Rightarrow> bool" where
  "in_int32 x \<longleftrightarrow> int_min \<le> x \<and> x \<le> int_max"

definition in_int64 :: "int \<Rightarrow> bool" where
  "in_int64 x \<longleftrightarrow> long_min \<le> x \<and> x \<le> long_max"

type_synonym int32 = "32 word"

definition starts_with :: "'a list \<Rightarrow> 'a list \<Rightarrow> bool" where
  "starts_with s p \<longleftrightarrow> take (length p) s = p"

definition keys_distinct :: "('k \<times> 'v) list \<Rightarrow> bool" where
  "keys_distinct xs \<longleftrightarrow> distinct (map fst xs)"

definition sorted_desc_by :: "('a \<Rightarrow> 'b::linorder) \<Rightarrow> 'a list \<Rightarrow> bool" where
  "sorted_desc_by f xs \<longleftrightarrow> sorted_wrt (\<lambda>a b. f b \<le> f a) xs"

text \<open>
  A C++ \<open>int\<close> held at its width: \<open>sint\<close> reads it as two's complement, and
  \<open>+\<close> wraps around. Incrementing a value that is below some other \<open>int\<close> never
  wraps:
\<close>

lemma sint_incr:
  assumes "sint (c::int32) < sint (m::int32)"
  shows "sint (c + 1) = sint c + 1"
proof -
  have "sint m < 2 ^ 31" using sint_less[of m] by simp
  moreover have "- (2 ^ 31) \<le> sint c" using sint_greater_eq[of c] by simp
  ultimately show ?thesis using assms
    by (simp add: sint_word_ariths signed_take_bit_int_eq_self)
qed

lemma sint_of_int32:
  "in_int32 x \<Longrightarrow> sint (word_of_int x :: int32) = x"
  by (simp add: in_int32_def sint_sbintrunc' signed_take_bit_int_eq_self)

lemma in_int32_sint [simp]: "in_int32 (sint (w::int32))"
  using sint_less[of w] sint_greater_eq[of w] by (simp add: in_int32_def)

lemma in_int32_in_int64 [intro]: "in_int32 x \<Longrightarrow> in_int64 x"
  by (simp add: in_int32_def in_int64_def)

section \<open>Prefixes\<close>

lemma starts_with_append [simp]: "starts_with (p @ r) p"
  by (simp add: starts_with_def)

lemma starts_with_Cons [simp]:
  "starts_with (a # s) (b # p) \<longleftrightarrow> a = b \<and> starts_with s p"
  by (auto simp: starts_with_def)

lemma starts_with_Nil [simp]: "starts_with s []" "starts_with [] p \<longleftrightarrow> p = []"
  by (auto simp: starts_with_def)

lemma starts_with_drop:
  "starts_with s p \<Longrightarrow> s = p @ drop (length p) s"
  by (metis append_take_drop_id starts_with_def)

section \<open>Association lists with distinct keys\<close>

text \<open>
  A directory listing is a list of (name, entry) pairs in iteration order. Its names are
  distinct; the lookup is \<open>map_of\<close>.
\<close>

lemma keys_distinct_filter [wf_rules]: "keys_distinct xs \<Longrightarrow> keys_distinct (filter P xs)"
  by (simp add: keys_distinct_def distinct_map_filter)

lemma keys_distinct_Nil [simp]: "keys_distinct []"
  by (simp add: keys_distinct_def)

lemma keys_distinct_snoc [wf_rules]:
  "keys_distinct xs \<Longrightarrow> k \<notin> fst ` set xs \<Longrightarrow> keys_distinct (xs @ [(k, v)])"
  by (simp add: keys_distinct_def)

lemma map_fst_map_snd [simp]: "map fst (map (\<lambda>(k, v). (k, f k v)) xs) = map fst xs"
  by (induction xs) auto

lemma keys_distinct_map_snd [wf_rules]:
  "keys_distinct xs \<Longrightarrow> keys_distinct (map (\<lambda>(k, v). (k, f k v)) xs)"
  unfolding keys_distinct_def by (simp only: map_fst_map_snd)

lemma map_of_filter_key:
  "map_of (filter (\<lambda>(k, _). P k) xs) x = (if P x then map_of xs x else None)"
  by (induction xs) auto

lemma keys_distinct_filter_snoc [wf_rules]:
  "keys_distinct xs \<Longrightarrow> keys_distinct (filter (\<lambda>(k, _). P k \<and> k \<noteq> d) xs @ [(d, v)])"
  by (auto simp: keys_distinct_def distinct_map_filter)

lemma length_filter_neq:
  "distinct xs \<Longrightarrow> k \<in> set xs \<Longrightarrow> Suc (length (filter (\<lambda>n. n \<noteq> k) xs)) = length xs"
proof (induction xs)
  case Nil
  then show ?case by simp
next
  case (Cons x xs)
  show ?case
  proof (cases "x = k")
    case True
    with Cons.prems have "filter (\<lambda>n. n \<noteq> k) xs = xs"
      by (auto simp: filter_id_conv)
    with True show ?thesis by simp
  next
    case False
    with Cons show ?thesis by simp
  qed
qed

lemma map_of_map_snd:
  "map_of (map (\<lambda>(k, v). (k, f k v)) xs) n = map_option (f n) (map_of xs n)"
  by (induction xs) auto

section \<open>Lists sorted by a key, in descending order\<close>

text \<open>
  \<open>std::sort\<close> with a strict "greater than" comparison leaves a list whose keys do not
  increase; which of two equal keys comes first is unspecified. The facts below hold for
  every such permutation.
\<close>

lemma sorted_desc_by_hd_max:
  assumes "sorted_desc_by f (y # ys)" and "x \<in> set (y # ys)"
  shows "f x \<le> f y"
  using assms by (auto simp: sorted_desc_by_def)

lemma sorted_desc_by_sort_key:
  "sorted_desc_by f (rev (sort_key f xs))"
proof -
  have "sorted (map f (sort_key f xs))" by simp
  then have "sorted_wrt (\<lambda>a b. f a \<le> f b) (sort_key f xs)"
    by (simp add: sorted_wrt_map)
  then show ?thesis
    by (simp add: sorted_desc_by_def sorted_wrt_rev)
qed

lemma mset_rev_sort_key [simp]: "mset (rev (sort_key f xs)) = mset xs"
  by simp

text \<open>Walking a list by index: the element at \<open>n\<close> moves from the rest to the prefix.\<close>

lemma drop_eq_Cons:
  assumes "drop n xs = r # rs"
  shows "take (Suc n) xs = take n xs @ [r] \<and> drop (Suc n) xs = rs"
proof -
  have n: "n < length xs" using assms by (metis drop_eq_Nil2 list.distinct(1) not_le)
  have "xs ! n = r" using assms n by (metis hd_drop_conv_nth list.sel(1))
  moreover have "drop (Suc n) xs = tl (drop n xs)" by (simp add: drop_Suc drop_tl)
  ultimately show ?thesis using assms n by (simp add: take_Suc_conv_app_nth)
qed

end
