(* ===== verification/Detect.thy ===== *)
theory Detect
  imports Prelude
begin

text \<open>
  The face detector step, \<open>detectFaces\<close> of \<open>src/compscifinal.cpp\<close> (lines 19--33).
  Images are modelled by their size and by where their pixels come from (the frame and
  the region of it they show); pixel values are not modelled. The cascade classifier is
  an external capability: a function from the grey image to the regions it reports, a
  parameter of every definition here. OpenCV's checks that can throw inside the loop
  (\<open>cvtColor\<close> on an empty frame, a region of interest outside the image, \<open>resize\<close>
  of an empty image) are values of \<open>cv_error\<close>; an uncaught \<open>cv::Exception\<close> ends
  the program. The face counter and the face limit are C++ \<open>int\<close>s, kept at their width
  as \<open>int32\<close> words and compared through \<open>sint\<close>, as the code compares them.
\<close>

section \<open>Images and regions\<close>

record rect =
  rx :: int
  ry :: int
  rwidth :: int
  rheight :: int

text \<open>
  A \<open>cv::Mat\<close>: its size, the frame it was taken from and the region of that frame it
  shows (a resized image keeps its source region).
\<close>

record mat =
  mrows :: int
  mcols :: int
  mframe :: nat
  msource :: rect

text \<open>
  A camera frame: its number in the stream, its size and the rectangles drawn on it
  (\<open>cv::rectangle\<close> writes pixels of the frame; the model records the rectangle).
\<close>

record frame =
  fid :: nat
  fcols :: int
  frows :: int
  marks :: "rect list"

datatype cv_error = Empty_image | Roi_out_of_range | Resize_empty_source

type_synonym detector = "mat \<Rightarrow> rect list"

text \<open>\<open>cvtColor(frame, gray, COLOR_BGR2GRAY)\<close>: the same size, the whole frame.\<close>

definition cvtColor :: "frame \<Rightarrow> cv_error + mat" where
  "cvtColor fr =
     (if fcols fr \<le> 0 \<or> frows fr \<le> 0 then Inl Empty_image
      else Inr \<lparr>mrows = frows fr, mcols = fcols fr, mframe = fid fr,
                msource = \<lparr>rx = 0, ry = 0, rwidth = fcols fr, rheight = frows fr\<rparr>\<rparr>)"

text \<open>\<open>gray(face)\<close>: \<open>Mat::operator()(Rect)\<close> asserts that the region lies in the image.\<close>

definition roi_inside :: "mat \<Rightarrow> rect \<Rightarrow> bool" where
  "roi_inside m r \<longleftrightarrow>
     0 \<le> rx r \<and> 0 \<le> rwidth r \<and> rx r + rwidth r \<le> mcols m \<and>
     0 \<le> ry r \<and> 0 \<le> rheight r \<and> ry r + rheight r \<le> mrows m"

definition roi :: "mat \<Rightarrow> rect \<Rightarrow> cv_error + mat" where
  "roi m r =
     (if roi_inside m r
      then Inr \<lparr>mrows = rheight r, mcols = rwidth r, mframe = mframe m,
                msource = \<lparr>rx = rx (msource m) + rx r, ry = ry (msource m) + ry r,
                           rwidth = rwidth r, rheight = rheight r\<rparr>\<rparr>
      else Inl Roi_out_of_range)"

text \<open>\<open>resize(src, dst, Size(w, h))\<close> asserts a non-empty source.\<close>

definition resize :: "mat \<Rightarrow> int \<Rightarrow> int \<Rightarrow> cv_error + mat" where
  "resize m w h =
     (if mrows m \<le> 0 \<or> mcols m \<le> 0 then Inl Resize_empty_source
      else Inr (m\<lparr>mrows := h, mcols := w\<rparr>))"

definition rectangle :: "frame \<Rightarrow> rect \<Rightarrow> frame" where
  "rectangle fr r = fr\<lparr>marks := marks fr @ [r]\<rparr>"

section \<open>The detection loop\<close>

text \<open>
  The \<open>for\<close> loop over the detector's regions (lines 24--32), with its accumulators:
  the face counter, the frame being annotated and the vector \<open>capturedFaces\<close> that
  \<open>push_back\<close> extends. The guard \<open>faceCount >= maxFaces\<close> leaves the loop before the
  rectangle is drawn.
\<close>

fun detect_loop ::
  "int32 \<Rightarrow> mat \<Rightarrow> rect list \<Rightarrow> int32 \<Rightarrow> frame \<Rightarrow> mat list \<Rightarrow> cv_error + frame \<times> mat list"
where
  "detect_loop maxF gray [] cnt fr acc = Inr (fr, acc)"
| "detect_loop maxF gray (r # rs) cnt fr acc =
     (if sint maxF \<le> sint cnt then Inr (fr, acc)
      else (let fr' = rectangle fr r in
            case roi gray r of
              Inl e \<Rightarrow> Inl e
            | Inr m \<Rightarrow>
                (case resize m 200 200 of
                   Inl e \<Rightarrow> Inl e
                 | Inr m' \<Rightarrow> detect_loop maxF gray rs (cnt + 1) fr' (acc @ [m']))))"

definition detectFaces :: "detector \<Rightarrow> int32 \<Rightarrow> frame \<Rightarrow> mat list \<Rightarrow> cv_error + frame \<times> mat list" where
  "detectFaces det maxF fr captured =
     (case cvtColor fr of
        Inl e \<Rightarrow> Inl e
      | Inr gray \<Rightarrow> detect_loop maxF gray (det gray) 0 fr captured)"

section \<open>The contract of a detection\<close>

text \<open>
  What \<open>detectFaces\<close> promises when the detector keeps to its contract (non-empty regions
  inside the image): the first \<open>maxFaces\<close> regions, no more and in the detector's order,
  are drawn on the frame and appended, cut out and scaled to 200 by 200, to the vector.
  A limit of zero or below takes no face.
\<close>

definition regions_ok :: "mat \<Rightarrow> rect list \<Rightarrow> bool" where
  "regions_ok gray rs \<longleftrightarrow> (\<forall>r \<in> set rs. roi_inside gray r \<and> 0 < rwidth r \<and> 0 < rheight r)"

definition face_of :: "mat \<Rightarrow> rect \<Rightarrow> mat" where
  "face_of gray r =
     \<lparr>mrows = 200, mcols = 200, mframe = mframe gray,
      msource = \<lparr>rx = rx (msource gray) + rx r, ry = ry (msource gray) + ry r,
                 rwidth = rwidth r, rheight = rheight r\<rparr>\<rparr>"

definition accepted :: "int32 \<Rightarrow> rect list \<Rightarrow> rect list" where
  "accepted maxF rs = take (nat (sint maxF)) rs"

definition detect_spec :: "detector \<Rightarrow> int32 \<Rightarrow> frame \<Rightarrow> mat list \<Rightarrow> frame \<times> mat list" where
  "detect_spec det maxF fr captured =
     (let gray = projr (cvtColor fr); rs = accepted maxF (det gray)
      in (fr\<lparr>marks := marks fr @ rs\<rparr>, captured @ map (face_of gray) rs))"

section \<open>Lemmas\<close>

lemma roi_resize_ok:
  assumes "roi_inside gray r" "0 < rwidth r" "0 < rheight r"
  shows "(case roi gray r of Inl e \<Rightarrow> Inl e
          | Inr m \<Rightarrow> (case resize m 200 200 of Inl e \<Rightarrow> Inl e | Inr m' \<Rightarrow> f m')) =
         f (face_of gray r)"
  using assms by (simp add: roi_def resize_def face_of_def)

text \<open>
  The loop from any counter value \<open>cnt \<ge> 0\<close> takes the next \<open>maxFaces - cnt\<close> regions.
  The counter never wraps around: it is incremented only while it is below the limit.
\<close>

lemma detect_loop_take:
  assumes "regions_ok gray rs" and "0 \<le> sint cnt"
  shows "detect_loop maxF gray rs cnt fr acc =
           Inr (fr\<lparr>marks := marks fr @ take (nat (sint maxF - sint cnt)) rs\<rparr>,
                acc @ map (face_of gray) (take (nat (sint maxF - sint cnt)) rs))"
  using assms
proof (induction rs arbitrary: cnt fr acc)
  case Nil
  then show ?case by simp
next
  case (Cons r rs)
  show ?case
  proof (cases "sint maxF \<le> sint cnt")
    case True
    then show ?thesis by simp
  next
    case False
    then have inc: "sint (cnt + 1) = sint cnt + 1" using sint_incr [of cnt maxF] by simp
    have n: "nat (sint maxF - sint cnt) = Suc (nat (sint maxF - sint (cnt + 1)))"
      using False inc by simp
    from Cons.prems have r: "roi_inside gray r" "0 < rwidth r" "0 < rheight r"
      and rs: "regions_ok gray rs"
      by (auto simp: regions_ok_def)
    have "0 \<le> sint (cnt + 1)" using inc Cons.prems(2) by simp
    with rs Cons.IH have IH:
      "detect_loop maxF gray rs (cnt + 1) (rectangle fr r) (acc @ [face_of gray r]) =
         Inr ((rectangle fr r)\<lparr>marks := marks (rectangle fr r) @ take (nat (sint maxF - sint (cnt + 1))) rs\<rparr>,
              (acc @ [face_of gray r]) @ map (face_of gray) (take (nat (sint maxF - sint (cnt + 1))) rs))"
      by blast
    show ?thesis
      using False IH by (simp add: roi_resize_ok [OF r] n rectangle_def Let_def)
  qed
qed

lemma cvtColor_ok:
  "0 < fcols fr \<Longrightarrow> 0 < frows fr \<Longrightarrow> cvtColor fr = Inr (projr (cvtColor fr))"
  by (simp add: cvtColor_def)

lemma detectFaces_eq_spec:
  assumes "cvtColor fr = Inr gray" and "regions_ok gray (det gray)"
  shows "detectFaces det maxF fr captured = Inr (detect_spec det maxF fr captured)"
  using assms
  by (simp add: detectFaces_def detect_spec_def detect_loop_take accepted_def Let_def)

lemma face_of_size [simp]: "mrows (face_of gray r) = 200" "mcols (face_of gray r) = 200"
  by (simp_all add: face_of_def)

lemma length_accepted: "length (accepted maxF rs) = min (length rs) (nat (sint maxF))"
  by (simp add: accepted_def)

section \<open>Properties of a detection\<close>

text \<open>
  C1. With a detector that keeps to its contract, one call of \<open>detectFaces\<close> on an
  empty vector leaves exactly \<open>min(k, maxFaces)\<close> faces in it (none for a limit of
  zero or below), where \<open>k\<close> is the number of regions detected: the first ones, in
  the detector's order, each a 200 by 200 image cut from this frame.
\<close>

theorem detect_buffer_min:
  assumes "cvtColor fr = Inr gray" and "regions_ok gray (det gray)"
  shows "\<exists>fr' faces. detectFaces det maxF fr [] = Inr (fr', faces) \<and>
           length faces = min (length (det gray)) (nat (sint maxF)) \<and>
           faces = map (face_of gray) (take (nat (sint maxF)) (det gray)) \<and>
           (\<forall>f \<in> set faces. mrows f = 200 \<and> mcols f = 200 \<and> mframe f = fid fr)"
proof -
  have "detectFaces det maxF fr [] = Inr (detect_spec det maxF fr [])"
    using assms by (rule detectFaces_eq_spec)
  moreover have "mframe gray = fid fr" using assms(1) by (auto simp: cvtColor_def split: if_splits)
  ultimately show ?thesis
    using assms(1) by (auto simp: detect_spec_def accepted_def face_of_def Let_def)
qed

theorem detect_buffer_min_witness:
  "\<exists>fr' faces. detectFaces (\<lambda>_. [\<lparr>rx = 10, ry = 20, rwidth = 50, rheight = 60\<rparr>,
                                    \<lparr>rx = 200, ry = 100, rwidth = 80, rheight = 80\<rparr>]) 1
          \<lparr>fid = 7, fcols = 640, frows = 480, marks = []\<rparr> [] = Inr (fr', faces) \<and>
        length faces = 1 \<and>
        faces = [\<lparr>mrows = 200, mcols = 200, mframe = 7,
                  msource = \<lparr>rx = 10, ry = 20, rwidth = 50, rheight = 60\<rparr>\<rparr>] \<and>
        (\<forall>f \<in> set faces. mrows f = 200 \<and> mcols f = 200 \<and> mframe f = 7)"
  using detect_buffer_min
    [of "\<lparr>fid = 7, fcols = 640, frows = 480, marks = []\<rparr>"
        "\<lparr>mrows = 480, mcols = 640, mframe = 7, msource = \<lparr>rx = 0, ry = 0, rwidth = 640, rheight = 480\<rparr>\<rparr>"
        "\<lambda>_. [\<lparr>rx = 10, ry = 20, rwidth = 50, rheight = 60\<rparr>, \<lparr>rx = 200, ry = 100, rwidth = 80, rheight = 80\<rparr>]"
        1]
  by (simp add: cvtColor_def regions_ok_def roi_inside_def face_of_def)

text \<open>
  C7. The rectangles drawn on the frame are those of the accepted regions only: a region
  past the limit is neither buffered nor drawn.
\<close>

theorem detect_marks_accepted:
  assumes "cvtColor fr = Inr gray" and "regions_ok gray (det gray)"
  shows "\<exists>fr' faces. detectFaces det maxF fr [] = Inr (fr', faces) \<and>
           marks fr' = marks fr @ take (nat (sint maxF)) (det gray) \<and>
           length (marks fr') = length (marks fr) + length faces"
proof -
  have "detectFaces det maxF fr [] = Inr (detect_spec det maxF fr [])"
    using assms by (rule detectFaces_eq_spec)
  then show ?thesis
    using assms(1) by (simp add: detect_spec_def accepted_def Let_def)
qed

theorem detect_marks_accepted_witness:
  "\<exists>fr' faces. detectFaces (\<lambda>_. [\<lparr>rx = 10, ry = 20, rwidth = 50, rheight = 60\<rparr>,
                                    \<lparr>rx = 200, ry = 100, rwidth = 80, rheight = 80\<rparr>]) 1
          \<lparr>fid = 7, fcols = 640, frows = 480, marks = []\<rparr> [] = Inr (fr', faces) \<and>
        marks fr' = [\<lparr>rx = 10, ry = 20, rwidth = 50, rheight = 60\<rparr>] \<and>
        length (marks fr') = length faces"
  using detect_marks_accepted
    [of "\<lparr>fid = 7, fcols = 640, frows = 480, marks = []\<rparr>"
        "\<lparr>mrows = 480, mcols = 640, mframe = 7, msource = \<lparr>rx = 0, ry = 0, rwidth = 640, rheight = 480\<rparr>\<rparr>"
        "\<lambda>_. [\<lparr>rx = 10, ry = 20, rwidth = 50, rheight = 60\<rparr>, \<lparr>rx = 200, ry = 100, rwidth = 80, rheight = 80\<rparr>]"
        1]
  by (simp add: cvtColor_def regions_ok_def roi_inside_def)

end
