(* ===== verification/Decimal.thy ===== *)
theory Decimal
  imports Prelude
begin

text \<open>
  Decimal text, both ways. The program prints numbers with \<open>std::to_string\<close> (the
  index in a saved file's name) and with \<open>put_time\<close> (the timestamp in that name), and
  reads the argument of \<open>setmax\<close> with \<open>std::stoi\<close>. \<open>std::stoi\<close> is libc++'s: it
  calls \<open>strtol\<close> (skip white space, an optional sign, decimal digits up to the first
  non-digit) and throws \<open>std::invalid_argument\<close> when no digit was read and
  \<open>std::out_of_range\<close> when the value does not fit a \<open>long\<close> (\<open>ERANGE\<close>) or then an
  \<open>int\<close>. The exceptions are values of \<open>stoi_error\<close>.
\<close>

section \<open>Characters\<close>

definition c_isdigit :: "char \<Rightarrow> bool" where
  "c_isdigit c \<longleftrightarrow> 48 \<le> (of_char c :: nat) \<and> (of_char c :: nat) \<le> 57"

text \<open>\<open>isspace\<close> in the C locale: blank, tab, newline, vertical tab, form feed, return.\<close>

definition c_isspace :: "char \<Rightarrow> bool" where
  "c_isspace c \<longleftrightarrow> (of_char c :: nat) = 32 \<or> (9 \<le> (of_char c :: nat) \<and> (of_char c :: nat) \<le> 13)"

definition digit_char :: "nat \<Rightarrow> char" where
  "digit_char d = char_of (48 + d)"

definition digit_val :: "char \<Rightarrow> nat" where
  "digit_val c = of_char c - 48"

section \<open>Printing\<close>

fun nat_to_string :: "nat \<Rightarrow> string" where
  "nat_to_string n =
     (if n < 10 then [digit_char n] else nat_to_string (n div 10) @ [digit_char (n mod 10)])"

declare nat_to_string.simps [simp del]

definition int_to_string :: "int \<Rightarrow> string" where
  "int_to_string i =
     (if i < 0 then CHR ''-'' # nat_to_string (nat (- i)) else nat_to_string (nat i))"

text \<open>
  \<open>struct tm\<close> as \<open>localtime\<close> fills it, and \<open>put_time\<close> with the program's format
  \<open>"%Y-%m-%d_%H-%M-%S"\<close>: the year in full, the other fields as two digits.
\<close>

record tm =
  tm_year :: int
  tm_mon :: nat
  tm_mday :: nat
  tm_hour :: nat
  tm_min :: nat
  tm_sec :: nat

definition pad2 :: "nat \<Rightarrow> string" where
  "pad2 n = (if n < 10 then CHR ''0'' # nat_to_string n else nat_to_string n)"

definition put_time :: "tm \<Rightarrow> string" where
  "put_time t =
     int_to_string (tm_year t + 1900) @ ''-'' @ pad2 (Suc (tm_mon t)) @ ''-'' @ pad2 (tm_mday t) @
     ''_'' @ pad2 (tm_hour t) @ ''-'' @ pad2 (tm_min t) @ ''-'' @ pad2 (tm_sec t)"

text \<open>The values \<open>localtime\<close> produces, for a year with four digits.\<close>

definition tm_valid :: "tm \<Rightarrow> bool" where
  "tm_valid t \<longleftrightarrow>
     1000 \<le> tm_year t + 1900 \<and> tm_year t + 1900 \<le> 9999 \<and> tm_mon t < 12 \<and>
     1 \<le> tm_mday t \<and> tm_mday t \<le> 31 \<and> tm_hour t < 24 \<and> tm_min t < 60 \<and> tm_sec t \<le> 60"

section \<open>Parsing: strtol and stoi\<close>

fun digits_val :: "nat \<Rightarrow> string \<Rightarrow> nat" where
  "digits_val acc [] = acc"
| "digits_val acc (c # cs) = digits_val (10 * acc + digit_val c) cs"

datatype stoi_error = Invalid_argument | Out_of_range

text \<open>
  \<open>strtol(p, &end, 10)\<close>: the value (clamped to the \<open>long\<close> range), whether any
  digit was converted (\<open>end != p\<close>) and whether \<open>errno\<close> became \<open>ERANGE\<close>.
\<close>

definition strtol_sign :: "string \<Rightarrow> bool \<times> string" where
  "strtol_sign s1 =
     (case s1 of
        c # r \<Rightarrow> if c = CHR ''-'' then (True, r) else if c = CHR ''+'' then (False, r) else (False, s1)
      | [] \<Rightarrow> (False, []))"

definition strtol :: "string \<Rightarrow> int \<times> bool \<times> bool" where
  "strtol s =
     (let (neg, s2) = strtol_sign (dropWhile c_isspace s);
          ds = takeWhile c_isdigit s2;
          v = (if neg then - int (digits_val 0 ds) else int (digits_val 0 ds))
      in if ds = [] then (0, False, False)
         else if v < long_min then (long_min, True, True)
         else if long_max < v then (long_max, True, True)
         else (v, True, False))"

text \<open>libc++'s \<open>as_integer<int>\<close>: \<open>ERANGE\<close> first, then no conversion, then \<open>int\<close>.\<close>

definition stoi :: "string \<Rightarrow> stoi_error + int" where
  "stoi s =
     (case strtol s of
        (v, any, erange) \<Rightarrow>
          if erange then Inl Out_of_range
          else if \<not> any then Inl Invalid_argument
          else if v < int_min \<or> int_max < v then Inl Out_of_range
          else Inr v)"

section \<open>Lemmas\<close>

lemma digit_char_c_isdigit [simp]: "d < 10 \<Longrightarrow> c_isdigit (digit_char d)"
  by (simp add: c_isdigit_def digit_char_def)

lemma digit_val_digit_char [simp]: "d < 10 \<Longrightarrow> digit_val (digit_char d) = d"
  by (simp add: digit_val_def digit_char_def)

lemma digit_char_not_space [simp]: "d < 10 \<Longrightarrow> \<not> c_isspace (digit_char d)"
  by (simp add: c_isspace_def digit_char_def)

lemma of_char_digit_char: "d < 10 \<Longrightarrow> (of_char (digit_char d) :: nat) = 48 + d"
  by (simp add: digit_char_def)

lemma c_isdigit_not_sign: "c_isdigit c \<Longrightarrow> c \<noteq> CHR ''-'' \<and> c \<noteq> CHR ''+''"
  by (auto simp: c_isdigit_def)

lemma nat_to_string_unfold:
  "n < 10 \<Longrightarrow> nat_to_string n = [digit_char n]"
  "10 \<le> n \<Longrightarrow> nat_to_string n = nat_to_string (n div 10) @ [digit_char (n mod 10)]"
  by (simp_all add: nat_to_string.simps [of n])

lemma nat_to_string_digits: "c \<in> set (nat_to_string n) \<Longrightarrow> c_isdigit c"
proof (induction n rule: nat_to_string.induct)
  case (1 n)
  then show ?case
    by (cases "n < 10") (auto simp: nat_to_string_unfold)
qed

lemma nat_to_string_ne [simp]: "nat_to_string n \<noteq> []"
  by (cases "n < 10") (simp_all add: nat_to_string_unfold)

lemma digits_val_append:
  "digits_val acc (xs @ ys) = digits_val (digits_val acc xs) ys"
  by (induction xs arbitrary: acc) auto

lemma digits_val_nat_to_string_acc:
  "digits_val acc (nat_to_string n) = acc * 10 ^ length (nat_to_string n) + n"
proof (induction n arbitrary: acc rule: nat_to_string.induct)
  case (1 n)
  show ?case
  proof (cases "n < 10")
    case True
    then show ?thesis by (simp add: nat_to_string_unfold)
  next
    case False
    then have "digits_val acc (nat_to_string n) =
        10 * (acc * 10 ^ length (nat_to_string (n div 10)) + n div 10) + n mod 10"
      using "1.IH" by (simp add: nat_to_string_unfold digits_val_append)
    also have "\<dots> = acc * 10 ^ length (nat_to_string n) + n"
      using False by (simp add: nat_to_string_unfold algebra_simps)
    finally show ?thesis .
  qed
qed

lemma digits_val_nat_to_string [simp]: "digits_val 0 (nat_to_string n) = n"
  by (simp add: digits_val_nat_to_string_acc)

lemma nat_to_string_inj:
  "nat_to_string m = nat_to_string n \<Longrightarrow> m = n"
  by (metis digits_val_nat_to_string)

lemma takeWhile_digits_nat_to_string [simp]:
  "takeWhile c_isdigit (nat_to_string n) = nat_to_string n"
  by (simp add: takeWhile_eq_all_conv nat_to_string_digits)

lemma dropWhile_space_nat_to_string [simp]:
  "dropWhile c_isspace (nat_to_string n) = nat_to_string n"
proof -
  obtain c cs where "nat_to_string n = c # cs" "c_isdigit c"
    by (metis list.exhaust list.set_intros(1) nat_to_string_digits nat_to_string_ne)
  moreover have "c_isdigit c \<Longrightarrow> \<not> c_isspace c"
    by (auto simp: c_isdigit_def c_isspace_def)
  ultimately show ?thesis by simp
qed

lemma strtol_sign_nat_to_string [simp]:
  "strtol_sign (nat_to_string n) = (False, nat_to_string n)"
proof -
  obtain c cs where eq: "nat_to_string n = c # cs" and "c_isdigit c"
    by (metis list.exhaust list.set_intros(1) nat_to_string_digits nat_to_string_ne)
  then show ?thesis by (simp add: strtol_sign_def c_isdigit_not_sign)
qed

lemma length_nat_to_string_less:
  "n < 10 ^ k \<Longrightarrow> 0 < k \<Longrightarrow> length (nat_to_string n) \<le> k"
proof (induction n arbitrary: k rule: nat_to_string.induct)
  case (1 n)
  show ?case
  proof (cases "n < 10")
    case True
    with "1.prems" show ?thesis by (simp add: nat_to_string_unfold)
  next
    case False
    then obtain k' where k: "k = Suc k'" "0 < k'"
      using "1.prems" by (cases k; cases "k - 1") auto
    with "1.prems" have "n div 10 < 10 ^ k'"
      by (simp add: less_mult_imp_div_less mult.commute)
    with "1.IH" False k show ?thesis by (simp add: nat_to_string_unfold)
  qed
qed

lemma length_nat_to_string_ge:
  "10 ^ k \<le> n \<Longrightarrow> k < length (nat_to_string n)"
proof (induction n arbitrary: k rule: nat_to_string.induct)
  case (1 n)
  show ?case
  proof (cases k)
    case 0
    then show ?thesis by simp
  next
    case (Suc k')
    have p: "(10::nat) \<le> 10 * 10 ^ k'" by simp
    from "1.prems" Suc have "10 * 10 ^ k' \<le> n" by simp
    with p have "10 \<le> n" by (rule order_trans)
    from "1.prems" Suc have "10 ^ k' \<le> n div 10"
      by (simp add: less_eq_div_iff_mult_less_eq mult.commute)
    with \<open>10 \<le> n\<close> "1.IH" Suc show ?thesis by (simp add: nat_to_string_unfold)
  qed
qed

lemma length_pad2 [simp]: "n < 100 \<Longrightarrow> length (pad2 n) = 2"
proof (cases "n < 10")
  case True
  then show ?thesis by (simp add: pad2_def nat_to_string_unfold)
next
  case False
  assume "n < 100"
  then have "length (nat_to_string n) \<le> 2"
    using length_nat_to_string_less [of n 2] by simp
  moreover have "1 < length (nat_to_string n)"
    using False length_nat_to_string_ge [of 1 n] by simp
  ultimately show ?thesis using False by (simp add: pad2_def)
qed

lemma length_year:
  assumes "1000 \<le> y" "y \<le> (9999::int)"
  shows "length (int_to_string y) = 4"
proof -
  have "length (nat_to_string (nat y)) \<le> 4"
    using assms length_nat_to_string_less [of "nat y" 4] by simp
  moreover have "3 < length (nat_to_string (nat y))"
    using assms length_nat_to_string_ge [of 3 "nat y"] by simp
  ultimately show ?thesis using assms by (simp add: int_to_string_def)
qed

lemma length_put_time: "tm_valid t \<Longrightarrow> length (put_time t) = 19"
  by (simp add: put_time_def tm_valid_def length_year)

lemma strtol_nat_to_string:
  "strtol (nat_to_string n) =
     (if long_max < int n then (long_max, True, True) else (int n, True, False))"
  by (simp add: strtol_def Let_def)

lemma strtol_neg_nat_to_string:
  "strtol (CHR ''-'' # nat_to_string n) =
     (if - int n < long_min then (long_min, True, True) else (- int n, True, False))"
  by (simp add: strtol_def Let_def c_isspace_def strtol_sign_def)

lemma stoi_of_int_to_string: "in_int32 i \<Longrightarrow> stoi (int_to_string i) = Inr i"
  by (auto simp: stoi_def int_to_string_def strtol_nat_to_string strtol_neg_nat_to_string in_int32_def)

lemma stoi_range: "stoi s = Inr v \<Longrightarrow> in_int32 v"
  by (auto simp: stoi_def in_int32_def split: prod.splits if_splits)

lemma strtol_sign_nat_to_string_append [simp]:
  "strtol_sign (nat_to_string n @ t) = (False, nat_to_string n @ t)"
proof -
  obtain c cs where eq: "nat_to_string n = c # cs" and "c_isdigit c"
    by (metis list.exhaust list.set_intros(1) nat_to_string_digits nat_to_string_ne)
  then show ?thesis by (simp add: strtol_sign_def c_isdigit_not_sign)
qed

lemma dropWhile_space_nat_to_string_append [simp]:
  "dropWhile c_isspace (nat_to_string n @ t) = nat_to_string n @ t"
proof -
  obtain c cs where "nat_to_string n = c # cs" "c_isdigit c"
    by (metis list.exhaust list.set_intros(1) nat_to_string_digits nat_to_string_ne)
  moreover have "c_isdigit c \<Longrightarrow> \<not> c_isspace c"
    by (auto simp: c_isdigit_def c_isspace_def)
  ultimately show ?thesis by simp
qed

lemma takeWhile_digits_nat_to_string_append:
  "t = [] \<or> \<not> c_isdigit (hd t) \<Longrightarrow> takeWhile c_isdigit (nat_to_string n @ t) = nat_to_string n"
  by (cases t) (auto simp: takeWhile_append2 nat_to_string_digits)

text \<open>
  What \<open>std::stoi\<close> ignores: white space before the number, and whatever follows its
  last digit.
\<close>

lemma stoi_spaces:
  "\<forall>c \<in> set ws. c_isspace c \<Longrightarrow> stoi (ws @ s) = stoi s"
  by (simp add: stoi_def strtol_def dropWhile_append)

lemma strtol_int_to_string_append:
  assumes "t = [] \<or> \<not> c_isdigit (hd t)"
  shows "strtol (int_to_string i @ t) = strtol (int_to_string i)"
proof (cases "i < 0")
  case True
  have "CHR ''-'' \<noteq> CHR ''+''" "\<not> c_isspace CHR ''-''" by (simp_all add: c_isspace_def)
  then show ?thesis using True assms
    by (simp add: strtol_def int_to_string_def strtol_sign_def takeWhile_digits_nat_to_string_append)
next
  case False
  then show ?thesis using assms
    by (simp add: strtol_def int_to_string_def takeWhile_digits_nat_to_string_append)
qed

lemma stoi_int_to_string_append:
  "in_int32 i \<Longrightarrow> t = [] \<or> \<not> c_isdigit (hd t) \<Longrightarrow> stoi (int_to_string i @ t) = Inr i"
  using stoi_of_int_to_string [of i] strtol_int_to_string_append [of t i] by (simp add: stoi_def)

end
