(* ===== verification/FileSys.thy ===== *)
theory FileSys
  imports Detect Decimal
begin

text \<open>
  The capture directory and the three commands that touch it: \<open>saveCapturedFaces\<close>
  (lines 36--47 of \<open>src/compscifinal.cpp\<close>), \<open>clearCapturedFaces\<close> (50--58) and
  \<open>renameFile\<close> (77--102). The directory is its listing: (name, entry) pairs in the
  order \<open>directory_iterator\<close> visits them, with distinct names, or \<open>None\<close> when the
  directory does not exist. An entry is a regular file (its last write time and the image
  written to it), a directory, or another kind of file. The program only ever names
  entries of this one directory, so paths are names in it. A failed \<open>imwrite\<close> returns
  \<open>false\<close>, which the program ignores; a \<open>std::filesystem\<close> call that fails throws
  \<open>filesystem_error\<close>, which nothing catches: those are values of \<open>fs_error\<close>.
\<close>

section \<open>Directory entries\<close>

datatype entry = Regular int mat | Directory | Other

type_synonym listing = "(string \<times> entry) list"

datatype fs_error = No_such_directory | Is_a_directory | Outside_directory

fun is_regular :: "entry \<Rightarrow> bool" where
  "is_regular (Regular _ _) = True"
| "is_regular _ = False"

fun mtime :: "entry \<Rightarrow> int" where
  "mtime (Regular t _) = t"
| "mtime _ = 0"

definition regular_names :: "listing \<Rightarrow> string list" where
  "regular_names l = map fst (filter (\<lambda>(n, e). is_regular e) l)"

text \<open>Names that denote a directory whatever the listing holds: the directory and its parent.\<close>

definition dir_alias :: "string \<Rightarrow> bool" where
  "dir_alias n \<longleftrightarrow> n = [] \<or> n = ''.'' \<or> n = ''..''"

section \<open>Writing an image: imwrite\<close>

text \<open>
  \<open>imwrite(filename, img)\<close> creates the file or replaces the content of a regular
  file; it fails, silently, where the name is a directory or another kind of file, or
  where the directory is missing. The new file's write time is the time of the write.
\<close>

definition imwrite :: "string \<Rightarrow> mat \<Rightarrow> int \<Rightarrow> listing option \<Rightarrow> listing option" where
  "imwrite n img t d =
     (case d of
        None \<Rightarrow> None
      | Some l \<Rightarrow>
          (if dir_alias n then Some l
           else case map_of l n of
             None \<Rightarrow> Some (l @ [(n, Regular t img)])
           | Some (Regular _ _) \<Rightarrow>
               Some (map (\<lambda>(k, e). (k, if k = n then Regular t img else e)) l)
           | Some _ \<Rightarrow> Some l))"

section \<open>capture: saveCapturedFaces\<close>

text \<open>
  Each face gets the name \<open>face_<timestamp>_<index>.png\<close>, the timestamp read from the
  clock in the iteration that writes it. The clock is the environment's: \<open>clk i\<close> is
  the local time and the file time at the \<open>i\<close>-th iteration.
\<close>

definition face_filename :: "tm \<Rightarrow> nat \<Rightarrow> string" where
  "face_filename t i = ''face_'' @ put_time t @ ''_'' @ nat_to_string i @ ''.png''"

type_synonym clock = "nat \<Rightarrow> tm \<times> int"

fun save_loop :: "clock \<Rightarrow> nat \<Rightarrow> mat list \<Rightarrow> listing option \<Rightarrow> listing option" where
  "save_loop clk i [] d = d"
| "save_loop clk i (f # fs) d =
     save_loop clk (Suc i) fs (imwrite (face_filename (fst (clk i)) i) f (snd (clk i)) d)"

definition saveCapturedFaces :: "clock \<Rightarrow> mat list \<Rightarrow> listing option \<Rightarrow> listing option" where
  "saveCapturedFaces clk faces d = save_loop clk 0 faces d"

section \<open>clear: clearCapturedFaces\<close>

text \<open>
  The buffer is emptied first; then \<open>directory_iterator\<close>, which throws on a missing
  directory, and \<open>remove\<close> for every regular file.
\<close>

definition clearCapturedFaces :: "mat list \<Rightarrow> listing option \<Rightarrow> fs_error + mat list \<times> listing" where
  "clearCapturedFaces faces d =
     (case d of
        None \<Rightarrow> Inl No_such_directory
      | Some l \<Rightarrow> Inr ([], filter (\<lambda>(n, e). \<not> is_regular e) l))"

section \<open>rename: renameFile\<close>

text \<open>
  \<open>path::extension()\<close> of a file name: from the rightmost period to the end, except
  that a period in first position does not start an extension, and \<open>.\<close> and \<open>..\<close>
  have none.
\<close>

definition last_dot :: "string \<Rightarrow> nat option" where
  "last_dot f =
     (let k = length (takeWhile (\<lambda>c. c \<noteq> CHR ''.'') (rev f))
      in if k = length f then None else Some (length f - Suc k))"

definition extension :: "string \<Rightarrow> string" where
  "extension f =
     (if f = ''.'' \<or> f = ''..'' then []
      else case last_dot f of
             None \<Rightarrow> []
           | Some p \<Rightarrow> if p = 0 then [] else drop p f)"

text \<open>
  \<open>fs::rename(from, to)\<close> as POSIX \<open>rename\<close> does it: the entry keeps its write time
  and content; an existing non-directory \<open>to\<close> is replaced; a directory \<open>to\<close> is an
  error. A new name with a \<open>/\<close> leads out of this directory, which the model does not
  follow: it stops with \<open>Outside_directory\<close>.
\<close>

definition fs_rename :: "string \<Rightarrow> string \<Rightarrow> listing \<Rightarrow> fs_error + listing" where
  "fs_rename src dst l =
     (if CHR ''/'' \<in> set dst then Inl Outside_directory
      else if dir_alias dst \<or> map_of l dst = Some Directory then Inl Is_a_directory
      else if src = dst then Inr l
      else case map_of l src of
             None \<Rightarrow> Inr l
           | Some e \<Rightarrow> Inr (filter (\<lambda>(k, _). k \<noteq> src \<and> k \<noteq> dst) l @ [(dst, e)]))"

text \<open>
  The files are sorted by last write time, newest first (\<open>std::sort\<close> with \<open>>\<close>;
  among equal times the order is unspecified, and the model takes one admissible order),
  and the first is renamed to the new name with its old extension.
\<close>

definition sort_newest_first :: "listing \<Rightarrow> string list \<Rightarrow> string list" where
  "sort_newest_first l files = rev (sort_key (\<lambda>n. mtime (the (map_of l n))) files)"

text \<open>
  The result carries the new name, which the code prints (\<open>File renamed to\<close>), or
  \<open>None\<close> where it prints \<open>No files found in the directory.\<close>
\<close>

definition renameFile :: "string \<Rightarrow> listing option \<Rightarrow> fs_error + listing \<times> string option" where
  "renameFile newName d =
     (case d of
        None \<Rightarrow> Inl No_such_directory
      | Some l \<Rightarrow>
          (case sort_newest_first l (regular_names l) of
             [] \<Rightarrow> Inr (l, None)
           | mostRecent # _ \<Rightarrow>
               (let newPath = newName @ extension mostRecent
                in case fs_rename mostRecent newPath l of
                     Inl e \<Rightarrow> Inl e
                   | Inr l' \<Rightarrow> Inr (l', Some newPath))))"

section \<open>What a capture writes\<close>

text \<open>
  The names one call of \<open>saveCapturedFaces\<close> writes from iteration \<open>i\<close> on, and the
  names \<open>imwrite\<close> can write to (not a directory, not another kind of file).
\<close>

definition written_names :: "clock \<Rightarrow> nat \<Rightarrow> nat \<Rightarrow> string set" where
  "written_names clk i n = (\<lambda>j. face_filename (fst (clk j)) j) ` {i..<i + n}"

definition writable :: "listing \<Rightarrow> string \<Rightarrow> bool" where
  "writable l n \<longleftrightarrow> \<not> dir_alias n \<and> (map_of l n = None \<or> (\<exists>e. map_of l n = Some e \<and> is_regular e))"

section \<open>Lemmas\<close>

lemma regular_names_mem:
  "keys_distinct l \<Longrightarrow> n \<in> set (regular_names l) \<longleftrightarrow> (\<exists>e. map_of l n = Some e \<and> is_regular e)"
  by (force simp: regular_names_def keys_distinct_def)

lemma imwrite_None [simp]: "imwrite n img t None = None"
  by (simp add: imwrite_def)

lemma imwrite_Some: "\<exists>l'. imwrite n img t (Some l) = Some l'"
  by (auto simp: imwrite_def split: option.splits entry.splits)

lemma imwrite_keys_distinct [wf_rules]:
  "keys_distinct l \<Longrightarrow> imwrite n img t (Some l) = Some l' \<Longrightarrow> keys_distinct l'"
  by (auto simp: imwrite_def keys_distinct_map_snd keys_distinct_snoc map_of_eq_None_iff
           split: if_splits option.splits entry.splits)

lemma map_of_imwrite:
  assumes "keys_distinct l" and "imwrite n img t (Some l) = Some l'"
  shows "map_of l' x =
           (if x = n \<and> \<not> dir_alias n \<and> (map_of l n = None \<or> (\<exists>e. map_of l n = Some e \<and> is_regular e))
            then Some (Regular t img) else map_of l x)"
proof (cases "dir_alias n")
  case True
  with assms show ?thesis by (simp add: imwrite_def)
next
  case False
  show ?thesis
  proof (cases "map_of l n")
    case None
    with False assms show ?thesis
      by (auto simp: imwrite_def map_add_def map_of_append split: option.splits)
  next
    case (Some e)
    with False assms show ?thesis
      by (cases e) (auto simp: imwrite_def map_of_map_snd option.map_ident)
  qed
qed

lemma face_filename_inj:
  assumes "tm_valid t1" "tm_valid t2" "face_filename t1 i = face_filename t2 j"
  shows "i = j"
proof -
  have "length (put_time t1) = length (put_time t2)"
    using assms(1,2) by (simp add: length_put_time)
  with assms(3) have "nat_to_string i @ ''.png'' = nat_to_string j @ ''.png''"
    by (simp add: face_filename_def)
  then show ?thesis by (simp add: nat_to_string_inj)
qed

lemma face_filename_not_alias: "\<not> dir_alias (face_filename t i)"
  by (simp add: face_filename_def dir_alias_def)

lemma save_loop_Some:
  "keys_distinct l \<Longrightarrow> \<exists>l'. save_loop clk i fs (Some l) = Some l' \<and> keys_distinct l'"
proof (induction fs arbitrary: i l)
  case Nil
  then show ?case by simp
next
  case (Cons f fs)
  obtain l1 where "imwrite (face_filename (fst (clk i)) i) f (snd (clk i)) (Some l) = Some l1"
    using imwrite_Some by blast
  moreover from Cons.prems this have "keys_distinct l1" by (rule imwrite_keys_distinct)
  ultimately show ?case using Cons.IH by simp
qed

lemma writable_imwrite:
  "keys_distinct l \<Longrightarrow> imwrite n img t (Some l) = Some l' \<Longrightarrow> writable l x \<Longrightarrow> writable l' x"
  by (auto simp: writable_def map_of_imwrite)

lemma written_names_Suc:
  "written_names clk i (Suc n) = insert (face_filename (fst (clk i)) i) (written_names clk (Suc i) n)"
proof -
  have "{i..<i + Suc n} = insert i {Suc i..<Suc i + n}" by auto
  then show ?thesis by (simp add: written_names_def)
qed

lemma map_of_save_loop_other:
  assumes "keys_distinct l" "save_loop clk i fs (Some l) = Some l'"
    and "x \<notin> written_names clk i (length fs)"
  shows "map_of l' x = map_of l x"
  using assms
proof (induction fs arbitrary: i l)
  case Nil
  then show ?case by simp
next
  case (Cons f fs)
  obtain l1 where l1: "imwrite (face_filename (fst (clk i)) i) f (snd (clk i)) (Some l) = Some l1"
    using imwrite_Some by blast
  from Cons.prems(1) l1 have d1: "keys_distinct l1" by (rule imwrite_keys_distinct)
  from Cons.prems(3) have x: "x \<noteq> face_filename (fst (clk i)) i" "x \<notin> written_names clk (Suc i) (length fs)"
    by (simp_all add: written_names_Suc)
  from Cons.prems(2) l1 have "save_loop clk (Suc i) fs (Some l1) = Some l'" by simp
  with d1 x(2) Cons.IH have "map_of l' x = map_of l1 x" by blast
  also have "\<dots> = map_of l x" using map_of_imwrite [OF Cons.prems(1) l1] x(1) by simp
  finally show ?case .
qed

lemma map_of_save_loop_written:
  assumes "keys_distinct l" "save_loop clk i fs (Some l) = Some l'"
    and "\<forall>j \<in> {i..<i + length fs}. tm_valid (fst (clk j)) \<and> writable l (face_filename (fst (clk j)) j)"
    and "k < length fs"
  shows "map_of l' (face_filename (fst (clk (i + k))) (i + k)) = Some (Regular (snd (clk (i + k))) (fs ! k))"
  using assms
proof (induction fs arbitrary: i l k)
  case Nil
  then show ?case by simp
next
  case (Cons f fs)
  obtain l1 where l1: "imwrite (face_filename (fst (clk i)) i) f (snd (clk i)) (Some l) = Some l1"
    using imwrite_Some by blast
  from Cons.prems(1) l1 have d1: "keys_distinct l1" by (rule imwrite_keys_distinct)
  from Cons.prems(2) l1 have run: "save_loop clk (Suc i) fs (Some l1) = Some l'" by simp
  have w1: "\<forall>j \<in> {Suc i..<Suc i + length fs}. tm_valid (fst (clk j)) \<and> writable l1 (face_filename (fst (clk j)) j)"
    using Cons.prems(3) writable_imwrite [OF Cons.prems(1) l1] by auto
  show ?case
  proof (cases k)
    case 0
    have vi: "tm_valid (fst (clk i))" "writable l (face_filename (fst (clk i)) i)"
      using Cons.prems(3) by auto
    have "face_filename (fst (clk i)) i \<notin> written_names clk (Suc i) (length fs)"
    proof
      assume "face_filename (fst (clk i)) i \<in> written_names clk (Suc i) (length fs)"
      then obtain j where "Suc i \<le> j" "j < Suc i + length fs"
        and eq: "face_filename (fst (clk i)) i = face_filename (fst (clk j)) j"
        by (auto simp: written_names_def)
      moreover have "tm_valid (fst (clk j))" using Cons.prems(3) calculation(1,2) by auto
      ultimately show False using face_filename_inj [OF vi(1)] by fastforce
    qed
    then have "map_of l' (face_filename (fst (clk i)) i) = map_of l1 (face_filename (fst (clk i)) i)"
      using map_of_save_loop_other [OF d1 run] by blast
    with 0 vi(2) show ?thesis by (simp add: map_of_imwrite [OF Cons.prems(1) l1] writable_def)
  next
    case (Suc k')
    with Cons.prems(4) have "k' < length fs" by simp
    with Cons.IH [OF d1 run w1] Suc show ?thesis by simp
  qed
qed
lemma writable_save_loop:
  "keys_distinct l \<Longrightarrow> save_loop clk i fs (Some l) = Some l' \<Longrightarrow> writable l x \<Longrightarrow> writable l' x"
proof (induction fs arbitrary: i l)
  case Nil
  then show ?case by simp
next
  case (Cons f fs)
  obtain l1 where l1: "imwrite (face_filename (fst (clk i)) i) f (snd (clk i)) (Some l) = Some l1"
    using imwrite_Some by blast
  have "keys_distinct l1" using Cons.prems(1) l1 by (rule imwrite_keys_distinct)
  moreover have "writable l1 x" using writable_imwrite [OF Cons.prems(1) l1 Cons.prems(3)] .
  ultimately show ?case using Cons.IH Cons.prems(2) l1 by simp
qed

lemma set_sort_newest_first [simp]: "set (sort_newest_first l fs) = set fs"
  by (simp add: sort_newest_first_def)

lemma sort_newest_first_hd_max:
  assumes "sort_newest_first l fs = m # ms" and "x \<in> set fs"
  shows "mtime (the (map_of l x)) \<le> mtime (the (map_of l m))"
proof -
  have "sorted_desc_by (\<lambda>n. mtime (the (map_of l n))) (m # ms)"
    using assms(1) sorted_desc_by_sort_key unfolding sort_newest_first_def by metis
  moreover have "x \<in> set (m # ms)"
    using assms by (metis set_sort_newest_first)
  ultimately show ?thesis by (rule sorted_desc_by_hd_max)
qed

lemma fs_rename_moves:
  assumes "keys_distinct l" "CHR ''/'' \<notin> set dst" "\<not> dir_alias dst"
    and "map_of l dst \<noteq> Some Directory" "src \<noteq> dst" "map_of l src = Some e"
  shows "fs_rename src dst l = Inr (filter (\<lambda>(k, _). k \<noteq> src \<and> k \<noteq> dst) l @ [(dst, e)])"
  using assms by (simp add: fs_rename_def)

lemma map_of_moved:
  "map_of (filter (\<lambda>(k, _). k \<noteq> src \<and> k \<noteq> dst) l @ [(dst, e)]) x =
     (if x = dst then Some e else if x = src then None else map_of l x)"
  by (induction l) auto

lemma clear_no_regular:
  "regular_names (filter (\<lambda>(n, e). \<not> is_regular e) l) = []"
  by (induction l) (auto simp: regular_names_def)

lemma map_of_clear:
  "keys_distinct l \<Longrightarrow> map_of (filter (\<lambda>(n, e). \<not> is_regular e) l) x =
     (case map_of l x of Some e \<Rightarrow> if is_regular e then None else Some e | None \<Rightarrow> None)"
  by (induction l) (auto simp: keys_distinct_def map_of_eq_None_iff split: option.splits)

lemma clear_keys_distinct [wf_rules]:
  "keys_distinct l \<Longrightarrow> clearCapturedFaces b (Some l) = Inr (b', l') \<Longrightarrow> keys_distinct l'"
  by (auto simp: clearCapturedFaces_def keys_distinct_filter)

lemma fs_rename_keys_distinct [wf_rules]:
  "keys_distinct l \<Longrightarrow> fs_rename src dst l = Inr l' \<Longrightarrow> keys_distinct l'"
  by (auto simp: fs_rename_def keys_distinct_filter_snoc split: if_splits option.splits)

lemma renameFile_keys_distinct [wf_rules]:
  "keys_distinct l \<Longrightarrow> renameFile nm (Some l) = Inr (l', r) \<Longrightarrow> keys_distinct l'"
  by (auto simp: renameFile_def Let_def fs_rename_keys_distinct split: list.splits sum.splits)

lemma saveCapturedFaces_keys_distinct [wf_rules]:
  "keys_distinct l \<Longrightarrow> saveCapturedFaces clk fs (Some l) = Some l' \<Longrightarrow> keys_distinct l'"
  using save_loop_Some [of l clk 0 fs] by (auto simp: saveCapturedFaces_def)

lemma save_loop_keeps_Some: "\<exists>l'. save_loop clk i fs (Some l) = Some l'"
proof (induction fs arbitrary: i l)
  case Nil
  then show ?case by simp
next
  case (Cons f fs)
  obtain l1 where "imwrite (face_filename (fst (clk i)) i) f (snd (clk i)) (Some l) = Some l1"
    using imwrite_Some by blast
  with Cons.IH show ?case by simp
qed

lemma save_loop_None [simp]: "save_loop clk i fs None = None"
  by (induction fs arbitrary: i) simp_all

lemma regular_names_snoc:
  "is_regular e \<Longrightarrow> regular_names (xs @ [(n, e)]) = regular_names xs @ [n]"
  by (simp add: regular_names_def)

lemma regular_names_filter_key:
  "regular_names (filter (\<lambda>(k, _). P k) l) = filter P (regular_names l)"
  by (induction l) (auto simp: regular_names_def)

lemma distinct_regular_names: "keys_distinct l \<Longrightarrow> distinct (regular_names l)"
  by (simp add: regular_names_def keys_distinct_def distinct_map_filter)

section \<open>Properties of the directory commands\<close>

text \<open>
  C4. \<open>rename <name>\<close> renames the regular file with the latest write time (among
  equal times, one of them) to \<open><name>\<close> followed by its old extension, and leaves every
  other entry as it was, when the new name is free.
\<close>

theorem rename_newest:
  assumes "keys_distinct l" and "sort_newest_first l (regular_names l) = m # ms"
    and "CHR ''/'' \<notin> set (newName @ extension m)" and "\<not> dir_alias (newName @ extension m)"
    and "map_of l (newName @ extension m) = None"
  shows "\<exists>l' e. renameFile newName (Some l) = Inr (l', Some (newName @ extension m)) \<and> keys_distinct l' \<and>
           map_of l m = Some e \<and> is_regular e \<and>
           (\<forall>x \<in> set (regular_names l). mtime (the (map_of l x)) \<le> mtime e) \<and>
           map_of l' (newName @ extension m) = Some e \<and> map_of l' m = None \<and>
           (\<forall>x. x \<noteq> m \<and> x \<noteq> newName @ extension m \<longrightarrow> map_of l' x = map_of l x)"
proof -
  have "m \<in> set (regular_names l)" using assms(2) by (metis list.set_intros(1) set_sort_newest_first)
  then obtain e where e: "map_of l m = Some e" "is_regular e"
    using regular_names_mem [OF assms(1)] by blast
  have ne: "m \<noteq> newName @ extension m" using e assms(5) by auto
  have max: "\<forall>x \<in> set (regular_names l). mtime (the (map_of l x)) \<le> mtime e"
    using sort_newest_first_hd_max [OF assms(2)] e by fastforce
  have "renameFile newName (Some l) =
          Inr (filter (\<lambda>(k, _). k \<noteq> m \<and> k \<noteq> newName @ extension m) l @ [(newName @ extension m, e)],
               Some (newName @ extension m))"
    using assms fs_rename_moves [OF assms(1,3,4) _ ne e(1)] by (simp add: renameFile_def Let_def)
  then show ?thesis
    using e max ne assms(1) keys_distinct_filter_snoc [OF assms(1)]
    by (auto simp del: map_of_append simp: map_of_moved)
qed

theorem rename_newest_witness:
  "\<exists>l' e. renameFile ''alice''
      (Some [(''face_a.png'', Regular 5 \<lparr>mrows = 200, mcols = 200, mframe = 1, msource = \<lparr>rx = 0, ry = 0, rwidth = 9, rheight = 9\<rparr>\<rparr>),
             (''face_b.png'', Regular 9 \<lparr>mrows = 200, mcols = 200, mframe = 2, msource = \<lparr>rx = 0, ry = 0, rwidth = 9, rheight = 9\<rparr>\<rparr>),
             (''old'', Directory)]) = Inr (l', Some ''alice.png'') \<and>
      map_of l' ''alice.png'' = Some e \<and> mtime e = 9 \<and> map_of l' ''face_b.png'' = None \<and>
      map_of l' ''old'' = Some Directory"
proof -
  define L where "L = [(''face_a.png'', Regular 5 \<lparr>mrows = 200, mcols = 200, mframe = 1, msource = \<lparr>rx = 0, ry = 0, rwidth = 9, rheight = 9\<rparr>\<rparr>),
             (''face_b.png'', Regular 9 \<lparr>mrows = 200, mcols = 200, mframe = 2, msource = \<lparr>rx = 0, ry = 0, rwidth = 9, rheight = 9\<rparr>\<rparr>),
             (''old'', Directory)]"
  have ext: "''alice'' @ extension ''face_b.png'' = ''alice.png''"
    by code_simp
  have h1: "keys_distinct L" by (simp add: L_def keys_distinct_def)
  have h2: "sort_newest_first L (regular_names L) = ''face_b.png'' # [''face_a.png'']"
    by (simp add: L_def regular_names_def sort_newest_first_def)
  have h3: "CHR ''/'' \<notin> set (''alice'' @ extension ''face_b.png'')" unfolding ext by simp
  have h4: "\<not> dir_alias (''alice'' @ extension ''face_b.png'')" unfolding ext by (simp add: dir_alias_def)
  have h5: "map_of L (''alice'' @ extension ''face_b.png'') = None" unfolding ext by (simp add: L_def)
  from rename_newest [OF h1 h2 h3 h4 h5] obtain l' e where
    r: "renameFile ''alice'' (Some L) = Inr (l', Some (''alice'' @ extension ''face_b.png''))"
    and e: "map_of L ''face_b.png'' = Some e"
    and n: "map_of l' (''alice'' @ extension ''face_b.png'') = Some e"
    and b: "map_of l' ''face_b.png'' = None"
    and o: "\<forall>x. x \<noteq> ''face_b.png'' \<and> x \<noteq> ''alice'' @ extension ''face_b.png'' \<longrightarrow> map_of l' x = map_of L x"
    by blast
  have "map_of l' ''old'' = Some Directory"
    using o unfolding ext by (simp add: L_def)
  moreover have "mtime e = 9" using e by (auto simp: L_def)
  ultimately show ?thesis using r n b unfolding ext L_def by blast
qed
text \<open>
  C6. \<open>rename\<close> does not keep other files untouched when the new name is taken: if
  \<open><name>\<close> plus the extension names another regular file, that file is replaced by
  the renamed one (POSIX \<open>rename\<close> overwrites) and one regular file fewer remains.
\<close>

theorem rename_overwrites_existing:
  assumes "keys_distinct l" and "sort_newest_first l (regular_names l) = m # ms"
    and "CHR ''/'' \<notin> set (newName @ extension m)" and "\<not> dir_alias (newName @ extension m)"
    and "map_of l (newName @ extension m) = Some old" and "is_regular old"
    and "newName @ extension m \<noteq> m"
  shows "\<exists>l'. renameFile newName (Some l) = Inr (l', Some (newName @ extension m)) \<and>
           map_of l' (newName @ extension m) = map_of l m \<and> map_of l' m = None \<and>
           Suc (length (regular_names l')) = length (regular_names l)"
proof -
  define dst where "dst = newName @ extension m"
  have m: "m \<in> set (regular_names l)"
    using assms(2) by (metis list.set_intros(1) set_sort_newest_first)
  then obtain e where e: "map_of l m = Some e" "is_regular e"
    using regular_names_mem [OF assms(1)] by blast
  have d: "dst \<in> set (regular_names l)"
    using assms(5,6) regular_names_mem [OF assms(1)] by (auto simp: dst_def)
  have ne: "m \<noteq> dst" using assms(7) by (auto simp: dst_def)
  have nd: "map_of l dst \<noteq> Some Directory" using assms(5,6) by (auto simp: dst_def)
  have ren: "renameFile newName (Some l) =
      Inr (filter (\<lambda>(k, _). k \<noteq> m \<and> k \<noteq> dst) l @ [(dst, e)], Some dst)"
    using assms(2) fs_rename_moves [OF assms(1,3,4) nd[unfolded dst_def] ne[unfolded dst_def] e(1)]
    by (simp add: renameFile_def Let_def dst_def)
  define xs where "xs = regular_names l"
  have dx: "distinct xs" using assms(1) by (simp add: xs_def distinct_regular_names)
  have "Suc (length (filter (\<lambda>n. n \<noteq> m) (filter (\<lambda>n. n \<noteq> dst) xs))) = length (filter (\<lambda>n. n \<noteq> dst) xs)"
    using dx m ne by (intro length_filter_neq) (auto simp: xs_def)
  moreover have "Suc (length (filter (\<lambda>n. n \<noteq> dst) xs)) = length xs"
    using dx d by (intro length_filter_neq) (auto simp: xs_def)
  moreover have "regular_names (filter (\<lambda>(k, _). k \<noteq> m \<and> k \<noteq> dst) l @ [(dst, e)]) =
      filter (\<lambda>n. n \<noteq> m) (filter (\<lambda>n. n \<noteq> dst) xs) @ [dst]"
    using e(2) by (simp add: regular_names_snoc regular_names_filter_key xs_def conj_commute)
  ultimately have "Suc (length (regular_names (filter (\<lambda>(k, _). k \<noteq> m \<and> k \<noteq> dst) l @ [(dst, e)]))) =
      length (regular_names l)"
    by (simp add: xs_def)
  with ren e(1) ne show ?thesis
    by (auto simp del: map_of_append simp: map_of_moved dst_def)
qed

theorem rename_overwrites_existing_witness:
  "\<exists>l'. renameFile ''a'' (Some [(''a.png'', Regular 1 \<lparr>mrows = 200, mcols = 200, mframe = 1, msource = \<lparr>rx = 0, ry = 0, rwidth = 9, rheight = 9\<rparr>\<rparr>), (''b.png'', Regular 2 \<lparr>mrows = 200, mcols = 200, mframe = 2, msource = \<lparr>rx = 0, ry = 0, rwidth = 9, rheight = 9\<rparr>\<rparr>)]) =
          Inr (l', Some ''a.png'') \<and>
        map_of l' ''a.png'' = Some (Regular 2 \<lparr>mrows = 200, mcols = 200, mframe = 2, msource = \<lparr>rx = 0, ry = 0, rwidth = 9, rheight = 9\<rparr>\<rparr>) \<and> map_of l' ''b.png'' = None \<and>
        length (regular_names l') = 1"
proof -
  define L where "L = [(''a.png'', Regular 1 \<lparr>mrows = 200, mcols = 200, mframe = 1, msource = \<lparr>rx = 0, ry = 0, rwidth = 9, rheight = 9\<rparr>\<rparr>), (''b.png'', Regular 2 \<lparr>mrows = 200, mcols = 200, mframe = 2, msource = \<lparr>rx = 0, ry = 0, rwidth = 9, rheight = 9\<rparr>\<rparr>)]"
  have ext: "''a'' @ extension ''b.png'' = ''a.png''" by code_simp
  have h1: "keys_distinct L" by (simp add: L_def keys_distinct_def)
  have h2: "sort_newest_first L (regular_names L) = ''b.png'' # [''a.png'']"
    by (simp add: L_def regular_names_def sort_newest_first_def)
  have h3: "CHR ''/'' \<notin> set (''a'' @ extension ''b.png'')" unfolding ext by simp
  have h4: "\<not> dir_alias (''a'' @ extension ''b.png'')" unfolding ext by (simp add: dir_alias_def)
  have h5: "map_of L (''a'' @ extension ''b.png'') = Some (Regular 1 \<lparr>mrows = 200, mcols = 200, mframe = 1, msource = \<lparr>rx = 0, ry = 0, rwidth = 9, rheight = 9\<rparr>\<rparr>)" unfolding ext by (simp add: L_def)
  have h6: "is_regular (Regular 1 \<lparr>mrows = 200, mcols = 200, mframe = 1, msource = \<lparr>rx = 0, ry = 0, rwidth = 9, rheight = 9\<rparr>\<rparr>)" by simp
  have h7: "''a'' @ extension ''b.png'' \<noteq> ''b.png''" unfolding ext by simp
  from rename_overwrites_existing [OF h1 h2 h3 h4 h5 h6 h7] obtain l' where
    "renameFile ''a'' (Some L) = Inr (l', Some (''a'' @ extension ''b.png''))"
    "map_of l' (''a'' @ extension ''b.png'') = map_of L ''b.png''" "map_of l' ''b.png'' = None"
    "Suc (length (regular_names l')) = length (regular_names L)"
    by blast
  then show ?thesis unfolding ext L_def by (simp add: regular_names_def)
qed

text \<open>
  C8. \<open>capture\<close> writes every buffered face, the \<open>k\<close>-th under
  \<open>face_<timestamp>_<k>.png\<close> with the time of its write, and changes no other name,
  when the clock gives valid times and the names are free or regular files: the indices
  keep the names of one capture apart even when the timestamps repeat.
\<close>

theorem capture_stores_faces:
  assumes "keys_distinct l"
    and "\<forall>j < length faces. tm_valid (fst (clk j)) \<and> writable l (face_filename (fst (clk j)) j)"
  shows "\<exists>l'. saveCapturedFaces clk faces (Some l) = Some l' \<and> keys_distinct l' \<and>
           (\<forall>k < length faces. map_of l' (face_filename (fst (clk k)) k) =
                                  Some (Regular (snd (clk k)) (faces ! k))) \<and>
           (\<forall>x. x \<notin> written_names clk 0 (length faces) \<longrightarrow> map_of l' x = map_of l x)"
proof -
  obtain l' where run: "save_loop clk 0 faces (Some l) = Some l'" and d: "keys_distinct l'"
    using save_loop_Some [OF assms(1)] by blast
  have w: "\<forall>j \<in> {0..<0 + length faces}. tm_valid (fst (clk j)) \<and> writable l (face_filename (fst (clk j)) j)"
    using assms(2) by auto
  have "\<forall>k < length faces. map_of l' (face_filename (fst (clk k)) k) = Some (Regular (snd (clk k)) (faces ! k))"
    using map_of_save_loop_written [OF assms(1) run w] by simp
  moreover have "\<forall>x. x \<notin> written_names clk 0 (length faces) \<longrightarrow> map_of l' x = map_of l x"
    using map_of_save_loop_other [OF assms(1) run] by blast
  ultimately show ?thesis using run d by (simp add: saveCapturedFaces_def)
qed

theorem capture_stores_faces_witness:
  "\<exists>l'. saveCapturedFaces (\<lambda>_. (\<lparr>tm_year = 124, tm_mon = 10, tm_mday = 9, tm_hour = 12, tm_min = 30, tm_sec = 5\<rparr>, 1000)) [\<lparr>mrows = 200, mcols = 200, mframe = 1, msource = \<lparr>rx = 0, ry = 0, rwidth = 9, rheight = 9\<rparr>\<rparr>, \<lparr>mrows = 200, mcols = 200, mframe = 2, msource = \<lparr>rx = 0, ry = 0, rwidth = 9, rheight = 9\<rparr>\<rparr>] (Some []) = Some l' \<and>
        map_of l' ''face_2024-11-09_12-30-05_0.png'' = Some (Regular 1000 \<lparr>mrows = 200, mcols = 200, mframe = 1, msource = \<lparr>rx = 0, ry = 0, rwidth = 9, rheight = 9\<rparr>\<rparr>) \<and>
        map_of l' ''face_2024-11-09_12-30-05_1.png'' = Some (Regular 1000 \<lparr>mrows = 200, mcols = 200, mframe = 2, msource = \<lparr>rx = 0, ry = 0, rwidth = 9, rheight = 9\<rparr>\<rparr>)"
proof -
  have n0: "face_filename \<lparr>tm_year = 124, tm_mon = 10, tm_mday = 9, tm_hour = 12, tm_min = 30, tm_sec = 5\<rparr> 0 = ''face_2024-11-09_12-30-05_0.png''" by code_simp
  have n1: "face_filename \<lparr>tm_year = 124, tm_mon = 10, tm_mday = 9, tm_hour = 12, tm_min = 30, tm_sec = 5\<rparr> 1 = ''face_2024-11-09_12-30-05_1.png''" by code_simp
  have h1: "keys_distinct ([] :: listing)" by simp
  have h2: "\<forall>j < length [\<lparr>mrows = 200, mcols = 200, mframe = 1, msource = \<lparr>rx = 0, ry = 0, rwidth = 9, rheight = 9\<rparr>\<rparr>, \<lparr>mrows = 200, mcols = 200, mframe = 2, msource = \<lparr>rx = 0, ry = 0, rwidth = 9, rheight = 9\<rparr>\<rparr>]. tm_valid (fst ((\<lambda>_. (\<lparr>tm_year = 124, tm_mon = 10, tm_mday = 9, tm_hour = 12, tm_min = 30, tm_sec = 5\<rparr>, 1000::int)) j)) \<and>
              writable [] (face_filename (fst ((\<lambda>_. (\<lparr>tm_year = 124, tm_mon = 10, tm_mday = 9, tm_hour = 12, tm_min = 30, tm_sec = 5\<rparr>, 1000::int)) j)) j)"
    by (simp add: tm_valid_def writable_def face_filename_not_alias)
  from capture_stores_faces [OF h1 h2] obtain l' where
    "saveCapturedFaces (\<lambda>_. (\<lparr>tm_year = 124, tm_mon = 10, tm_mday = 9, tm_hour = 12, tm_min = 30, tm_sec = 5\<rparr>, 1000)) [\<lparr>mrows = 200, mcols = 200, mframe = 1, msource = \<lparr>rx = 0, ry = 0, rwidth = 9, rheight = 9\<rparr>\<rparr>, \<lparr>mrows = 200, mcols = 200, mframe = 2, msource = \<lparr>rx = 0, ry = 0, rwidth = 9, rheight = 9\<rparr>\<rparr>] (Some []) = Some l'"
    "\<forall>k < length [\<lparr>mrows = 200, mcols = 200, mframe = 1, msource = \<lparr>rx = 0, ry = 0, rwidth = 9, rheight = 9\<rparr>\<rparr>, \<lparr>mrows = 200, mcols = 200, mframe = 2, msource = \<lparr>rx = 0, ry = 0, rwidth = 9, rheight = 9\<rparr>\<rparr>]. map_of l' (face_filename \<lparr>tm_year = 124, tm_mon = 10, tm_mday = 9, tm_hour = 12, tm_min = 30, tm_sec = 5\<rparr> k) = Some (Regular 1000 ([\<lparr>mrows = 200, mcols = 200, mframe = 1, msource = \<lparr>rx = 0, ry = 0, rwidth = 9, rheight = 9\<rparr>\<rparr>, \<lparr>mrows = 200, mcols = 200, mframe = 2, msource = \<lparr>rx = 0, ry = 0, rwidth = 9, rheight = 9\<rparr>\<rparr>] ! k))"
    by auto
  moreover from this(2) have "map_of l' (face_filename \<lparr>tm_year = 124, tm_mon = 10, tm_mday = 9, tm_hour = 12, tm_min = 30, tm_sec = 5\<rparr> 0) = Some (Regular 1000 \<lparr>mrows = 200, mcols = 200, mframe = 1, msource = \<lparr>rx = 0, ry = 0, rwidth = 9, rheight = 9\<rparr>\<rparr>)"
    "map_of l' (face_filename \<lparr>tm_year = 124, tm_mon = 10, tm_mday = 9, tm_hour = 12, tm_min = 30, tm_sec = 5\<rparr> 1) = Some (Regular 1000 \<lparr>mrows = 200, mcols = 200, mframe = 2, msource = \<lparr>rx = 0, ry = 0, rwidth = 9, rheight = 9\<rparr>\<rparr>)"
    by (metis length_Cons list.size(3) nth_Cons_0 nth_Cons_Suc One_nat_def zero_less_Suc lessI)+
  ultimately show ?thesis unfolding n0 n1 by blast
qed

text \<open>
  C19. Two captures in the same second overwrite each other's files: when the second
  capture's timestamps are those of the first, its \<open>k\<close>-th face replaces the first
  capture's \<open>k\<close>-th file, and the first capture's files beyond the second's faces stay.
  The directory then holds, under one timestamp, faces of two different frames, and the
  faces the second capture replaced are lost. The file name has no finer time than the
  second and no counter across captures.
\<close>

theorem same_second_capture_overwrites:
  assumes "keys_distinct l"
    and "\<forall>j < length f1. tm_valid (fst (clk1 j)) \<and> writable l (face_filename (fst (clk1 j)) j)"
    and "\<forall>j < length f2. tm_valid (fst (clk2 j)) \<and> writable l (face_filename (fst (clk2 j)) j)"
    and "\<forall>j < length f2. fst (clk2 j) = fst (clk1 j)"
  shows "\<exists>l''. saveCapturedFaces clk2 f2 (saveCapturedFaces clk1 f1 (Some l)) = Some l'' \<and>
           (\<forall>k < length f2. map_of l'' (face_filename (fst (clk1 k)) k) =
                               Some (Regular (snd (clk2 k)) (f2 ! k))) \<and>
           (\<forall>k. length f2 \<le> k \<and> k < length f1 \<longrightarrow>
                  map_of l'' (face_filename (fst (clk1 k)) k) = Some (Regular (snd (clk1 k)) (f1 ! k)))"
proof -
  obtain l1 where run1: "save_loop clk1 0 f1 (Some l) = Some l1" and d1: "keys_distinct l1"
    using save_loop_Some [OF assms(1)] by blast
  obtain l2 where run2: "save_loop clk2 0 f2 (Some l1) = Some l2"
    using save_loop_Some [OF d1] by blast
  have w1: "\<forall>j \<in> {0..<0 + length f1}. tm_valid (fst (clk1 j)) \<and> writable l (face_filename (fst (clk1 j)) j)"
    using assms(2) by auto
  have w2: "\<forall>j \<in> {0..<0 + length f2}. tm_valid (fst (clk2 j)) \<and> writable l1 (face_filename (fst (clk2 j)) j)"
    using assms(3) writable_save_loop [OF assms(1) run1] by auto
  have new: "\<forall>k < length f2. map_of l2 (face_filename (fst (clk1 k)) k) = Some (Regular (snd (clk2 k)) (f2 ! k))"
    using map_of_save_loop_written [OF d1 run2 w2] assms(4) by simp
  have old: "map_of l2 (face_filename (fst (clk1 k)) k) = Some (Regular (snd (clk1 k)) (f1 ! k))"
    if k: "length f2 \<le> k" "k < length f1" for k
  proof -
    have v: "tm_valid (fst (clk1 k))" using assms(2) k by auto
    have "face_filename (fst (clk1 k)) k \<notin> written_names clk2 0 (length f2)"
    proof
      assume "face_filename (fst (clk1 k)) k \<in> written_names clk2 0 (length f2)"
      then obtain j where j: "j < length f2" and eq: "face_filename (fst (clk1 k)) k = face_filename (fst (clk2 j)) j"
        by (auto simp: written_names_def)
      have "tm_valid (fst (clk2 j))" using assms(3) j by auto
      then have "k = j" using face_filename_inj [OF v _ eq] by blast
      then show False using j k by simp
    qed
    then have "map_of l2 (face_filename (fst (clk1 k)) k) = map_of l1 (face_filename (fst (clk1 k)) k)"
      using map_of_save_loop_other [OF d1 run2] by blast
    also have "\<dots> = Some (Regular (snd (clk1 k)) (f1 ! k))"
      using map_of_save_loop_written [OF assms(1) run1 w1, of k] k by simp
    finally show ?thesis .
  qed
  show ?thesis using run1 run2 new old by (simp add: saveCapturedFaces_def)
qed

theorem same_second_capture_overwrites_witness:
  "\<exists>l''. saveCapturedFaces (\<lambda>_. (\<lparr>tm_year = 124, tm_mon = 10, tm_mday = 9, tm_hour = 12, tm_min = 30, tm_sec = 5\<rparr>, 2000)) [\<lparr>mrows = 200, mcols = 200, mframe = 1, msource = \<lparr>rx = 0, ry = 0, rwidth = 9, rheight = 9\<rparr>\<rparr>]
           (saveCapturedFaces (\<lambda>_. (\<lparr>tm_year = 124, tm_mon = 10, tm_mday = 9, tm_hour = 12, tm_min = 30, tm_sec = 5\<rparr>, 1000))
              [\<lparr>mrows = 200, mcols = 200, mframe = 2, msource = \<lparr>rx = 0, ry = 0, rwidth = 9, rheight = 9\<rparr>\<rparr>, \<lparr>mrows = 200, mcols = 200, mframe = 3, msource = \<lparr>rx = 0, ry = 0, rwidth = 9, rheight = 9\<rparr>\<rparr>] (Some [])) = Some l'' \<and>
         map_of l'' (face_filename \<lparr>tm_year = 124, tm_mon = 10, tm_mday = 9, tm_hour = 12, tm_min = 30, tm_sec = 5\<rparr> 0) =
           Some (Regular 2000 \<lparr>mrows = 200, mcols = 200, mframe = 1, msource = \<lparr>rx = 0, ry = 0, rwidth = 9, rheight = 9\<rparr>\<rparr>) \<and>
         map_of l'' (face_filename \<lparr>tm_year = 124, tm_mon = 10, tm_mday = 9, tm_hour = 12, tm_min = 30, tm_sec = 5\<rparr> 1) =
           Some (Regular 1000 (\<lparr>mrows = 200, mcols = 200, mframe = 3, msource = \<lparr>rx = 0, ry = 0, rwidth = 9, rheight = 9\<rparr>\<rparr>))"
proof -
  have v: "tm_valid \<lparr>tm_year = 124, tm_mon = 10, tm_mday = 9, tm_hour = 12, tm_min = 30, tm_sec = 5\<rparr>"
    by (simp add: tm_valid_def)
  have w: "writable [] (face_filename t j)" for t j by (simp add: writable_def face_filename_not_alias)
  from same_second_capture_overwrites
    [of "[]" "[\<lparr>mrows = 200, mcols = 200, mframe = 2, msource = \<lparr>rx = 0, ry = 0, rwidth = 9, rheight = 9\<rparr>\<rparr>, \<lparr>mrows = 200, mcols = 200, mframe = 3, msource = \<lparr>rx = 0, ry = 0, rwidth = 9, rheight = 9\<rparr>\<rparr>]"
        "\<lambda>_. (\<lparr>tm_year = 124, tm_mon = 10, tm_mday = 9, tm_hour = 12, tm_min = 30, tm_sec = 5\<rparr>, 1000)"
        "[\<lparr>mrows = 200, mcols = 200, mframe = 1, msource = \<lparr>rx = 0, ry = 0, rwidth = 9, rheight = 9\<rparr>\<rparr>]" "\<lambda>_. (\<lparr>tm_year = 124, tm_mon = 10, tm_mday = 9, tm_hour = 12, tm_min = 30, tm_sec = 5\<rparr>, 2000)"]
  obtain l'' where
    "saveCapturedFaces (\<lambda>_. (\<lparr>tm_year = 124, tm_mon = 10, tm_mday = 9, tm_hour = 12, tm_min = 30, tm_sec = 5\<rparr>, 2000)) [\<lparr>mrows = 200, mcols = 200, mframe = 1, msource = \<lparr>rx = 0, ry = 0, rwidth = 9, rheight = 9\<rparr>\<rparr>]
           (saveCapturedFaces (\<lambda>_. (\<lparr>tm_year = 124, tm_mon = 10, tm_mday = 9, tm_hour = 12, tm_min = 30, tm_sec = 5\<rparr>, 1000))
              [\<lparr>mrows = 200, mcols = 200, mframe = 2, msource = \<lparr>rx = 0, ry = 0, rwidth = 9, rheight = 9\<rparr>\<rparr>, \<lparr>mrows = 200, mcols = 200, mframe = 3, msource = \<lparr>rx = 0, ry = 0, rwidth = 9, rheight = 9\<rparr>\<rparr>] (Some [])) = Some l''"
    "map_of l'' (face_filename \<lparr>tm_year = 124, tm_mon = 10, tm_mday = 9, tm_hour = 12, tm_min = 30, tm_sec = 5\<rparr> 0) =
       Some (Regular 2000 \<lparr>mrows = 200, mcols = 200, mframe = 1, msource = \<lparr>rx = 0, ry = 0, rwidth = 9, rheight = 9\<rparr>\<rparr>)"
    "map_of l'' (face_filename \<lparr>tm_year = 124, tm_mon = 10, tm_mday = 9, tm_hour = 12, tm_min = 30, tm_sec = 5\<rparr> 1) =
       Some (Regular 1000 (\<lparr>mrows = 200, mcols = 200, mframe = 3, msource = \<lparr>rx = 0, ry = 0, rwidth = 9, rheight = 9\<rparr>\<rparr>))"
    using v w by fastforce
  then show ?thesis by blast
qed

end
