(* ===== verification/Commands.thy ===== *)
theory Commands
  imports FileSys
begin

text \<open>
  The program's state and the two loop bodies that change it: one pass of the input
  thread's loop (the command dispatch of \<open>main\<close>, lines 119--173 of
  \<open>src/compscifinal.cpp\<close>, with the handlers \<open>setMaxFaces\<close> and
  \<open>showCapturedFaces\<close>) and one pass of the capture loop (lines 174--185). Each body
  runs its critical section with \<open>dataMutex\<close> held, so the System theory can run it as
  one step. What the program prints is recorded as a list of messages. An exception
  nothing catches (\<open>std::stoi\<close>'s, \<open>std::filesystem\<close>'s, OpenCV's) ends the
  process through \<open>std::terminate\<close>: it is the \<open>crash\<close> value of the result.
\<close>

section \<open>State\<close>

datatype msg =
    Prompt | Saved | Cleared | Max_set int | Renamed string | No_files | Help_table | Unknown_command

text \<open>
  The globals \<open>maxFaces\<close> and (captured by reference) \<open>capturedFaces\<close>,
  \<open>stopInputThread\<close> and the capture directory; the blocks \<open>show\<close> has queued on the
  main dispatch queue; standard output.
\<close>

record app =
  capturedFaces :: "mat list"
  maxFaces :: int32
  dir :: "listing option"
  pending :: "nat list"
  out :: "msg list"
  stopInputThread :: bool

definition app_init :: "listing option \<Rightarrow> app" where
  "app_init d = \<lparr>capturedFaces = [], maxFaces = 1, dir = d, pending = [], out = [],
                 stopInputThread = False\<rparr>"

datatype crash = Stoi_failed stoi_error | Fs_failed fs_error | Cv_failed cv_error

section \<open>Parsing a command line\<close>

text \<open>\<open>std::string::find(p)\<close>: the first position where \<open>p\<close> occurs, \<open>None\<close> for \<open>npos\<close>.\<close>

fun str_find :: "'a list \<Rightarrow> 'a list \<Rightarrow> nat option" where
  "str_find [] p = (if p = [] then Some 0 else None)"
| "str_find (c # s) p = (if starts_with (c # s) p then Some 0 else map_option Suc (str_find s p))"

datatype command =
    Capture | Clear | Show | SetMax string | Exit | Help | Rename string | Unknown

text \<open>The \<open>if\<close>/\<open>else if\<close> chain of the input thread, in the code's order.\<close>

definition parse_command :: "string \<Rightarrow> command" where
  "parse_command c =
     (if c = ''capture'' then Capture
      else if c = ''clear'' then Clear
      else if c = ''show'' then Show
      else if str_find c ''setmax '' = Some 0 then SetMax (drop 7 c)
      else if c = ''exit'' then Exit
      else if c = ''help'' then Help
      else if str_find c ''rename '' = Some 0 then Rename (drop 7 c)
      else Unknown)"

section \<open>Handlers\<close>

text \<open>\<open>setMaxFaces\<close>: the argument has been converted to \<open>int\<close> already.\<close>

definition setMaxFaces :: "int \<Rightarrow> app \<Rightarrow> app" where
  "setMaxFaces m st = st\<lparr>maxFaces := word_of_int m, out := out st @ [Max_set m]\<rparr>"

text \<open>
  \<open>showCapturedFaces\<close> does not show anything itself: it queues one block per face on
  the main dispatch queue (\<open>dispatch_async\<close>) and returns. The loop variable is a
  reference, \<open>auto& face\<close>, and a block captures a reference variable by reference:
  the block queued for the \<open>i\<close>-th face holds the vector slot \<open>capturedFaces[i]\<close>,
  not a copy of the image, and reads that slot when the main thread runs it, later and
  outside the lock. A queued block is the index of its slot.
\<close>

definition showCapturedFaces :: "app \<Rightarrow> app" where
  "showCapturedFaces st = st\<lparr>pending := pending st @ [0..<length (capturedFaces st)]\<rparr>"

text \<open>
  One pass of the input thread's loop after \<open>getline\<close> returned \<open>c\<close>: the dispatch,
  then the test \<open>if (stopInputThread) break\<close>. \<open>Inr (True, st)\<close> leaves the loop,
  \<open>Inr (False, st)\<close> goes round again.
\<close>

definition handle_command :: "clock \<Rightarrow> string \<Rightarrow> app \<Rightarrow> crash + bool \<times> app" where
  "handle_command clk c st =
     (let r = (case parse_command c of
          Capture \<Rightarrow>
            Inr (st\<lparr>dir := saveCapturedFaces clk (capturedFaces st) (dir st), out := out st @ [Saved]\<rparr>)
        | Clear \<Rightarrow>
            (case clearCapturedFaces (capturedFaces st) (dir st) of
               Inl e \<Rightarrow> Inl (Fs_failed e)
             | Inr (b, l) \<Rightarrow> Inr (st\<lparr>capturedFaces := b, dir := Some l, out := out st @ [Cleared]\<rparr>))
        | Show \<Rightarrow> Inr (showCapturedFaces st)
        | SetMax arg \<Rightarrow>
            (case stoi arg of
               Inl e \<Rightarrow> Inl (Stoi_failed e)
             | Inr m \<Rightarrow> Inr (setMaxFaces m st))
        | Exit \<Rightarrow> Inr (st\<lparr>stopInputThread := True\<rparr>)
        | Help \<Rightarrow> Inr (st\<lparr>out := out st @ [Help_table]\<rparr>)
        | Rename newName \<Rightarrow>
            (case renameFile newName (dir st) of
               Inl e \<Rightarrow> Inl (Fs_failed e)
             | Inr (l, None) \<Rightarrow> Inr (st\<lparr>dir := Some l, out := out st @ [No_files]\<rparr>)
             | Inr (l, Some p) \<Rightarrow> Inr (st\<lparr>dir := Some l, out := out st @ [Renamed p]\<rparr>))
        | Unknown \<Rightarrow> Inr (st\<lparr>out := out st @ [Unknown_command]\<rparr>))
      in case r of
           Inl e \<Rightarrow> Inl e
         | Inr st' \<Rightarrow> Inr (stopInputThread st', st'))"

section \<open>One pass of the capture loop\<close>

text \<open>
  With the lock held: \<open>capturedFaces.clear()\<close>, then \<open>detectFaces\<close> appending to the
  empty vector with the current \<open>maxFaces\<close>. The annotated frame is returned for
  \<open>imshow\<close>.
\<close>

definition capture_critical :: "detector \<Rightarrow> frame \<Rightarrow> app \<Rightarrow> crash + frame \<times> app" where
  "capture_critical det fr st =
     (let st1 = st\<lparr>capturedFaces := []\<rparr> in
      case detectFaces det (maxFaces st1) fr (capturedFaces st1) of
        Inl e \<Rightarrow> Inl (Cv_failed e)
      | Inr (fr', faces) \<Rightarrow> Inr (fr', st1\<lparr>capturedFaces := faces\<rparr>))"

section \<open>Lemmas\<close>

lemma str_find_0_iff [simp]: "str_find s p = Some 0 \<longleftrightarrow> starts_with s p"
  by (cases s) auto

lemma parse_command_setmax:
  assumes "starts_with c ''setmax ''"
  shows "parse_command c = SetMax (drop 7 c)"
proof -
  have "c \<noteq> ''capture''" "c \<noteq> ''clear''" "c \<noteq> ''show''"
    using assms by (auto simp: starts_with_def)
  then show ?thesis using assms by (simp add: parse_command_def)
qed

lemma parse_command_rename:
  assumes "starts_with c ''rename ''"
  shows "parse_command c = Rename (drop 7 c)"
proof -
  have "c \<noteq> ''capture''" "c \<noteq> ''clear''" "c \<noteq> ''show''" "c \<noteq> ''exit''" "c \<noteq> ''help''"
    using assms by (auto simp: starts_with_def)
  moreover have "\<not> starts_with c ''setmax ''"
    using assms by (simp add: starts_with_def)
  ultimately show ?thesis using assms by (simp add: parse_command_def)
qed
lemma handle_command_setmax:
  assumes "starts_with c ''setmax ''"
  shows "handle_command clk c st =
     (case stoi (drop 7 c) of
        Inl e \<Rightarrow> Inl (Stoi_failed e)
      | Inr m \<Rightarrow> Inr (stopInputThread st, setMaxFaces m st))"
  by (simp add: handle_command_def parse_command_setmax [OF assms] setMaxFaces_def split: sum.split)

lemma capture_critical_spec:
  assumes "cvtColor fr = Inr gray" and "regions_ok gray (det gray)"
  shows "capture_critical det fr st =
           Inr (fr\<lparr>marks := marks fr @ accepted (maxFaces st) (det gray)\<rparr>,
                st\<lparr>capturedFaces := map (face_of gray) (accepted (maxFaces st) (det gray))\<rparr>)"
proof -
  have "detectFaces det (maxFaces st) fr [] = Inr (detect_spec det (maxFaces st) fr [])"
    using assms by (rule detectFaces_eq_spec)
  moreover have "detect_spec det (maxFaces st) fr [] =
      (fr\<lparr>marks := marks fr @ accepted (maxFaces st) (det gray)\<rparr>,
       map (face_of gray) (accepted (maxFaces st) (det gray)))"
    using assms(1) by (simp add: detect_spec_def Let_def)
  ultimately show ?thesis by (simp add: capture_critical_def)
qed


section \<open>Properties of the commands\<close>

text \<open>
  C2. The buffer never accumulates across frames: after one pass of the capture loop's
  critical section it holds the faces of this frame only (the first \<open>maxFaces\<close>
  regions), whatever it held before, and nothing else of the state changes.
\<close>

theorem capture_no_accumulation:
  assumes "cvtColor fr = Inr gray" "regions_ok gray (det gray)"
  shows "\<exists>fr'. capture_critical det fr (st\<lparr>capturedFaces := b\<rparr>) =
           Inr (fr', st\<lparr>capturedFaces := map (face_of gray) (accepted (maxFaces st) (det gray))\<rparr>)"
  using capture_critical_spec [of fr gray det "st\<lparr>capturedFaces := b\<rparr>", OF assms] by simp


theorem capture_no_accumulation_witness:
  "\<exists>fr'. capture_critical (\<lambda>_. [\<lparr>rx = 10, ry = 20, rwidth = 50, rheight = 60\<rparr>, \<lparr>rx = 200, ry = 100, rwidth = 80, rheight = 80\<rparr>]) \<lparr>fid = 3, fcols = 640, frows = 480, marks = []\<rparr>
            ((app_init (Some []))\<lparr>capturedFaces := [\<lparr>mrows = 200, mcols = 200, mframe = 1, msource = \<lparr>rx = 0, ry = 0, rwidth = 9, rheight = 9\<rparr>\<rparr>, \<lparr>mrows = 200, mcols = 200, mframe = 1, msource = \<lparr>rx = 0, ry = 0, rwidth = 9, rheight = 9\<rparr>\<rparr>]\<rparr>) =
          Inr (fr', (app_init (Some []))\<lparr>capturedFaces := [\<lparr>mrows = 200, mcols = 200, mframe = 3, msource = \<lparr>rx = 10, ry = 20, rwidth = 50, rheight = 60\<rparr>\<rparr>]\<rparr>)"
  using capture_no_accumulation [where fr = "\<lparr>fid = 3, fcols = 640, frows = 480, marks = []\<rparr>" and gray = "\<lparr>mrows = 480, mcols = 640, mframe = 3, msource = \<lparr>rx = 0, ry = 0, rwidth = 640, rheight = 480\<rparr>\<rparr>" and det = "\<lambda>_. [\<lparr>rx = 10, ry = 20, rwidth = 50, rheight = 60\<rparr>, \<lparr>rx = 200, ry = 100, rwidth = 80, rheight = 80\<rparr>]" and st = "app_init (Some [])" and b = "[\<lparr>mrows = 200, mcols = 200, mframe = 1, msource = \<lparr>rx = 0, ry = 0, rwidth = 9, rheight = 9\<rparr>\<rparr>, \<lparr>mrows = 200, mcols = 200, mframe = 1, msource = \<lparr>rx = 0, ry = 0, rwidth = 9, rheight = 9\<rparr>\<rparr>]"]
  by (simp add: cvtColor_def regions_ok_def roi_inside_def app_init_def accepted_def face_of_def)


text \<open>
  C5. \<open>setmax abc\<close> does not leave the limit unchanged and carry on: \<open>std::stoi\<close>
  throws \<open>std::invalid_argument\<close>, nothing catches it, and the program terminates.
\<close>

theorem setmax_abc_crashes: "handle_command clk ''setmax abc'' st = Inl (Stoi_failed Invalid_argument)"
proof -
  have "stoi ''abc'' = Inl Invalid_argument"
    by (simp add: stoi_def strtol_def strtol_sign_def c_isspace_def c_isdigit_def)
  then show ?thesis
    using handle_command_setmax [of "''setmax abc''" clk st] by simp
qed






text \<open>
  C20. \<open>setmax\<close> reads its argument leniently: white space before the number and any
  text after its last digit are ignored, so \<open>setmax  3 faces\<close> or \<open>setmax 2.5\<close> set the
  limit as \<open>setmax 3\<close> and \<open>setmax 2\<close> do, and report it, with nothing else changed.
  \<open>std::stoi\<close> is called without its \<open>idx\<close> argument, so the unread rest of the
  argument is never checked.
\<close>

theorem setmax_lenient_parse:
  assumes "in_int32 n" and "\<forall>c \<in> set ws. c_isspace c" and "t = [] \<or> \<not> c_isdigit (hd t)"
  shows "handle_command clk (''setmax '' @ ws @ int_to_string n @ t) st =
           Inr (stopInputThread st, st\<lparr>maxFaces := word_of_int n, out := out st @ [Max_set n]\<rparr>)"
proof -
  have sw: "starts_with (''setmax '' @ ws @ int_to_string n @ t) ''setmax ''" by (rule starts_with_append)
  have "stoi (drop 7 (''setmax '' @ ws @ int_to_string n @ t)) = Inr n"
    using stoi_spaces [OF assms(2)] stoi_int_to_string_append [OF assms(1,3)] by simp
  then show ?thesis using handle_command_setmax [OF sw] by (simp add: setMaxFaces_def)
qed

theorem setmax_lenient_parse_witness:
  "handle_command (\<lambda>_. (\<lparr>tm_year = 124, tm_mon = 10, tm_mday = 9, tm_hour = 12, tm_min = 30, tm_sec = 5\<rparr>, 0))
     ''setmax  3 faces'' (app_init (Some [])) =
     Inr (False, (app_init (Some []))\<lparr>maxFaces := 3, out := [Max_set 3]\<rparr>)"
proof -
  have s: "int_to_string 3 = ''3''" by code_simp
  have h: "in_int32 3" "\<forall>c \<in> set '' ''. c_isspace c" "'' faces'' = [] \<or> \<not> c_isdigit (hd '' faces'')"
    by (simp_all add: in_int32_def c_isspace_def c_isdigit_def)
  from setmax_lenient_parse [where n = 3 and ws = "'' ''" and t = "'' faces''"
         and clk = "\<lambda>_. (\<lparr>tm_year = 124, tm_mon = 10, tm_mday = 9, tm_hour = 12, tm_min = 30, tm_sec = 5\<rparr>, 0)"
         and st = "app_init (Some [])", OF h]
  show ?thesis unfolding s by (simp add: app_init_def)
qed


text \<open>
  C10. When the capture directory does not exist, \<open>clear\<close> and \<open>rename\<close> end the
  program with an uncaught \<open>filesystem_error\<close>, while \<open>capture\<close> writes nothing and
  still reports the faces saved.
\<close>

theorem missing_dir_errors:
  assumes "dir st = None"
  shows "handle_command clk ''clear'' st = Inl (Fs_failed No_such_directory) \<and>
         (\<forall>n. handle_command clk (''rename '' @ n) st = Inl (Fs_failed No_such_directory)) \<and>
         handle_command clk ''capture'' st = Inr (stopInputThread st, st\<lparr>out := out st @ [Saved]\<rparr>)"
proof (intro conjI allI)
  show "handle_command clk ''clear'' st = Inl (Fs_failed No_such_directory)"
    using assms by (simp add: handle_command_def parse_command_def clearCapturedFaces_def)
next
  fix n
  have "starts_with (''rename '' @ n) ''rename ''" by (rule starts_with_append)
  then have "parse_command (''rename '' @ n) = Rename n"
    using parse_command_rename by fastforce
  then show "handle_command clk (''rename '' @ n) st = Inl (Fs_failed No_such_directory)"
    using assms by (simp add: handle_command_def renameFile_def)
next
  have "st\<lparr>dir := None, out := out st @ [Saved]\<rparr> = st\<lparr>out := out st @ [Saved]\<rparr>"
    using assms by (cases st) simp
  then show "handle_command clk ''capture'' st = Inr (stopInputThread st, st\<lparr>out := out st @ [Saved]\<rparr>)"
    using assms by (simp add: handle_command_def parse_command_def saveCapturedFaces_def)
qed

theorem missing_dir_errors_witness:
  "handle_command (\<lambda>_. (\<lparr>tm_year = 124, tm_mon = 10, tm_mday = 9, tm_hour = 12, tm_min = 30, tm_sec = 5\<rparr>, 0)) ''clear'' (app_init None) = Inl (Fs_failed No_such_directory) \<and>
   (\<forall>n. handle_command (\<lambda>_. (\<lparr>tm_year = 124, tm_mon = 10, tm_mday = 9, tm_hour = 12, tm_min = 30, tm_sec = 5\<rparr>, 0)) (''rename '' @ n) (app_init None) = Inl (Fs_failed No_such_directory)) \<and>
   handle_command (\<lambda>_. (\<lparr>tm_year = 124, tm_mon = 10, tm_mday = 9, tm_hour = 12, tm_min = 30, tm_sec = 5\<rparr>, 0)) ''capture'' (app_init None) = Inr (False, (app_init None)\<lparr>out := [Saved]\<rparr>)"
  using missing_dir_errors [of "app_init None" "\<lambda>_. (\<lparr>tm_year = 124, tm_mon = 10, tm_mday = 9, tm_hour = 12, tm_min = 30, tm_sec = 5\<rparr>, 0)"] by (simp add: app_init_def)


end
