(* ===== verification/Environment.thy ===== *)
theory Environment
  imports Commands
begin

text \<open>
  A stub environment, as the spec asks tests to use: a detector that reports two faces
  in every image, a camera whose frames are 640 by 480, and a clock standing at a given
  second of 2024-11-09 12:30. None of it is code of the program; the witnesses run the
  model on it.
\<close>

definition two_faces :: detector where
  "two_faces = (\<lambda>_. [\<lparr>rx = 10, ry = 20, rwidth = 50, rheight = 60\<rparr>,
                     \<lparr>rx = 200, ry = 100, rwidth = 80, rheight = 80\<rparr>])"

definition camera_frame :: "nat \<Rightarrow> frame" where
  "camera_frame n = \<lparr>fid = n, fcols = 640, frows = 480, marks = []\<rparr>"

definition clock_at :: "nat \<Rightarrow> clock" where
  "clock_at s = (\<lambda>_. (\<lparr>tm_year = 124, tm_mon = 10, tm_mday = 9, tm_hour = 12, tm_min = 30, tm_sec = s\<rparr>,
                      int s))"

text \<open>A 200 by 200 face image, for a buffer or a stored file.\<close>

definition stored_face :: mat where
  "stored_face = \<lparr>mrows = 200, mcols = 200, mframe = 0,
                   msource = \<lparr>rx = 0, ry = 0, rwidth = 9, rheight = 9\<rparr>\<rparr>"

end
