(* ===== verification/System.thy ===== *)
theory System
  imports Environment
begin

text \<open>
  The two threads of \<open>main\<close> (\<open>src/compscifinal.cpp\<close>, lines 119--189) and the mutex
  \<open>dataMutex\<close>. Two views:
  \<^item> schedules of whole critical sections (\<open>run_events\<close>), the order in which the
    mutex grants them;
  \<^item> the threads step by step (\<open>step\<close>): each thread has a program counter, the mutex
    a holder, and the capture loop's critical section is split into its writes
    (\<open>capturedFaces.clear()\<close>, then one \<open>push_back\<close> per face), so that a half-written
    buffer is a state of the model. The camera, the keyboard, standard input and the clock
    are the environment: lists consumed in order and a clock per command.
  An uncaught exception terminates the process: \<open>crashed\<close> is set and no thread moves.
\<close>

section \<open>Schedules of critical sections\<close>

datatype event = Frame frame | Command clock string

fun run_events :: "detector \<Rightarrow> event list \<Rightarrow> app \<Rightarrow> crash + app" where
  "run_events det [] st = Inr st"
| "run_events det (Frame fr # es) st =
     (case capture_critical det fr st of
        Inl e \<Rightarrow> Inl e
      | Inr (_, st') \<Rightarrow> run_events det es st')"
| "run_events det (Command clk c # es) st =
     (case handle_command clk c st of
        Inl e \<Rightarrow> Inl e
      | Inr (_, st') \<Rightarrow> run_events det es st')"

section \<open>Threads, program counters, the mutex\<close>

datatype thread = Main | Input

text \<open>
  The capture loop (lines 174--188): \<open>M_Read\<close> is \<open>cap.read(frame)\<close>; \<open>M_Lock\<close> the
  \<open>lock_guard\<close>; \<open>M_Clear\<close> \<open>capturedFaces.clear()\<close>; \<open>M_Cvt\<close> the \<open>cvtColor\<close> and
  detection of \<open>detectFaces\<close>; \<open>M_Loop\<close> its \<open>for\<close> loop with the frame being
  annotated, the grey image, the regions left and \<open>faceCount\<close>; \<open>M_Unlock\<close> the end of
  the guarded block; \<open>M_Show\<close> \<open>imshow\<close>; \<open>M_Wait\<close> \<open>waitKey(10)\<close>; \<open>M_Join\<close>
  \<open>inputThread.join()\<close>; \<open>M_Exit\<close> \<open>return 0\<close>.
\<close>

datatype mpc =
    M_Read | M_Lock frame | M_Clear frame | M_Cvt frame | M_Loop frame mat "rect list" int32
  | M_Unlock frame | M_Show frame | M_Wait | M_Join | M_Exit

text \<open>
  The input thread (lines 120--172): \<open>I_Top\<close> the loop test on \<open>stopInputThread\<close>;
  \<open>I_Getline\<close> the sleep, the prompt and \<open>getline\<close>; \<open>I_Dispatch\<close> the \<open>if\<close> chain up
  to the lock (for \<open>setmax\<close>, \<open>stoi\<close> runs here, before the lock); \<open>I_Acquire\<close> the
  \<open>lock_guard\<close>; \<open>I_Crit\<close> the handler under the lock; \<open>I_Release\<close> the end of the
  block; \<open>I_Check\<close> \<open>if (stopInputThread) break\<close>; \<open>I_Done\<close> the thread has returned.
\<close>

datatype ipc =
    I_Top | I_Getline | I_Dispatch string | I_Acquire string | I_Crit string | I_Release
  | I_Check | I_Done

text \<open>
  The whole process. \<open>last_det\<close> is a ghost field for the proofs: the grey image and the
  face limit of the last detection the capture loop finished, written when its \<open>for\<close>
  loop ends and read by no step. \<open>ncmd\<close> counts the handlers run, so that the
  \<open>k\<close>-th one reads the clock \<open>clock_src k\<close>.
\<close>

record sys =
  shared :: app
  holder :: "thread option"
  mpc :: mpc
  ipc :: ipc
  camera :: "frame list"
  keys :: "int list"
  stdin :: "string list"
  stdin_nl :: bool
  cin_good :: bool
  command :: string
  clock_src :: "nat \<Rightarrow> clock"
  ncmd :: nat
  window :: "frame option"
  viewer :: "mat option"
  crashed :: "crash option"
  last_det :: "(mat \<times> int32) option"

definition sys_init ::
  "listing option \<Rightarrow> frame list \<Rightarrow> int list \<Rightarrow> string list \<Rightarrow> bool \<Rightarrow> (nat \<Rightarrow> clock) \<Rightarrow> sys" where
  "sys_init d cam ks ls nl clk =
     \<lparr>shared = app_init d, holder = None, mpc = M_Read, ipc = I_Top, camera = cam, keys = ks,
      stdin = ls, stdin_nl = nl, cin_good = True, command = [], clock_src = clk, ncmd = 0,
      window = None, viewer = None, crashed = None, last_det = None\<rparr>"

text \<open>
  \<open>getline(cin, command)\<close> on the lines still to come, the state of \<open>cin\<close>, whether the
  text ends with a newline, and the old value of \<open>command\<close>, which is declared once,
  before the loop (line 120). When \<open>cin\<close> is good, \<open>command\<close> is erased and the next
  line read; the last line, if no newline ends it, leaves \<open>cin\<close> at end of file; with
  nothing left, \<open>command\<close> is empty and \<open>cin\<close> fails. Once \<open>cin\<close> is not good the
  sentry fails and \<open>command\<close> keeps its value. \<open>waitKey\<close> with no key gives -1.
\<close>

definition getline :: "bool \<Rightarrow> string list \<Rightarrow> bool \<Rightarrow> string \<Rightarrow> string \<times> string list \<times> bool" where
  "getline good ls nl cmd =
     (if \<not> good then (cmd, ls, False)
      else case ls of
        [] \<Rightarrow> ([], [], False)
      | l # ls' \<Rightarrow> (l, ls', ls' \<noteq> [] \<or> nl))"

definition waitKey :: "int list \<Rightarrow> int \<times> int list" where
  "waitKey ks = (case ks of [] \<Rightarrow> (-1, []) | k # ks' \<Rightarrow> (k, ks'))"

definition terminate :: "crash \<Rightarrow> sys \<Rightarrow> sys option" where
  "terminate e s = Some (s\<lparr>crashed := Some e\<rparr>)"

definition set_shared :: "(app \<Rightarrow> app) \<Rightarrow> sys \<Rightarrow> sys" where
  "set_shared f s = s\<lparr>shared := f (shared s)\<rparr>"

section \<open>One step of the capture loop\<close>

text \<open>
  \<open>M_Wait\<close> is where the main thread services its dispatch queue: a block queued by
  \<open>show\<close> runs there, shows the face now in its slot \<open>capturedFaces[i]\<close> and waits for
  a key (\<open>waitKey(0)\<close>), which it consumes. A slot that \<open>clear()\<close> or a detection
  with fewer faces has destroyed holds no image: reading it is undefined behaviour, and a
  destroyed \<open>cv::Mat\<close> is empty, so \<open>imshow\<close>'s assertion fails with an exception
  that nothing catches. With no block left, \<open>waitKey(10)\<close> reads a key and Escape (27)
  sets the stop flag and leaves the loop.
\<close>

definition main_step :: "detector \<Rightarrow> sys \<Rightarrow> sys option" where
  "main_step det s =
     (case mpc s of
        M_Read \<Rightarrow>
          (case camera s of
             [] \<Rightarrow> Some (s\<lparr>mpc := M_Join\<rparr>)
           | fr # frs \<Rightarrow> Some (s\<lparr>camera := frs, mpc := M_Lock fr\<rparr>))
      | M_Lock fr \<Rightarrow>
          (if holder s = None then Some (s\<lparr>holder := Some Main, mpc := M_Clear fr\<rparr>) else None)
      | M_Clear fr \<Rightarrow> Some ((set_shared (\<lambda>a. a\<lparr>capturedFaces := []\<rparr>) s)\<lparr>mpc := M_Cvt fr\<rparr>)
      | M_Cvt fr \<Rightarrow>
          (case cvtColor fr of
             Inl e \<Rightarrow> terminate (Cv_failed e) s
           | Inr gray \<Rightarrow> Some (s\<lparr>mpc := M_Loop fr gray (det gray) 0\<rparr>))
      | M_Loop fr gray rs cnt \<Rightarrow>
          (case rs of
             [] \<Rightarrow> Some (s\<lparr>mpc := M_Unlock fr, last_det := Some (gray, maxFaces (shared s))\<rparr>)
           | r # rs' \<Rightarrow>
               (if sint (maxFaces (shared s)) \<le> sint cnt
                then Some (s\<lparr>mpc := M_Unlock fr, last_det := Some (gray, maxFaces (shared s))\<rparr>)
                else case roi gray r of
                  Inl e \<Rightarrow> terminate (Cv_failed e) s
                | Inr m \<Rightarrow>
                    (case resize m 200 200 of
                       Inl e \<Rightarrow> terminate (Cv_failed e) s
                     | Inr m' \<Rightarrow>
                         Some ((set_shared (\<lambda>a. a\<lparr>capturedFaces := capturedFaces a @ [m']\<rparr>) s)
                                 \<lparr>mpc := M_Loop (rectangle fr r) gray rs' (cnt + 1)\<rparr>))))
      | M_Unlock fr \<Rightarrow>
          Some (s\<lparr>holder := None, mpc := M_Show fr\<rparr>)
      | M_Show fr \<Rightarrow> Some (s\<lparr>window := Some fr, mpc := M_Wait\<rparr>)
      | M_Wait \<Rightarrow>
          (case pending (shared s) of
             i # ps \<Rightarrow>
               (if length (capturedFaces (shared s)) \<le> i then terminate (Cv_failed Empty_image) s
                else case keys s of
                  [] \<Rightarrow> None
                | _ # ks \<Rightarrow>
                    Some ((set_shared (\<lambda>a. a\<lparr>pending := ps\<rparr>) s)
                            \<lparr>viewer := Some (capturedFaces (shared s) ! i), keys := ks\<rparr>))
           | [] \<Rightarrow>
               (case waitKey (keys s) of
                  (k, ks) \<Rightarrow>
                    if k = 27
                    then Some ((set_shared (\<lambda>a. a\<lparr>stopInputThread := True\<rparr>) s)\<lparr>keys := ks, mpc := M_Join\<rparr>)
                    else Some (s\<lparr>keys := ks, mpc := M_Read\<rparr>)))
      | M_Join \<Rightarrow> (if ipc s = I_Done then Some (s\<lparr>mpc := M_Exit\<rparr>) else None)
      | M_Exit \<Rightarrow> None)"

section \<open>One step of the input thread\<close>

definition input_step :: "sys \<Rightarrow> sys option" where
  "input_step s =
     (case ipc s of
        I_Top \<Rightarrow> Some (s\<lparr>ipc := if stopInputThread (shared s) then I_Done else I_Getline\<rparr>)
      | I_Getline \<Rightarrow>
          (case getline (cin_good s) (stdin s) (stdin_nl s) (command s) of
             (c, ls, good) \<Rightarrow>
               Some ((set_shared (\<lambda>a. a\<lparr>out := out a @ [Prompt]\<rparr>) s)
                       \<lparr>stdin := ls, cin_good := good, command := c, ipc := I_Dispatch c\<rparr>))
      | I_Dispatch c \<Rightarrow>
          (case parse_command c of
             SetMax arg \<Rightarrow>
               (case stoi arg of
                  Inl e \<Rightarrow> terminate (Stoi_failed e) s
                | Inr _ \<Rightarrow> Some (s\<lparr>ipc := I_Acquire c\<rparr>))
           | Exit \<Rightarrow> Some ((set_shared (\<lambda>a. a\<lparr>stopInputThread := True\<rparr>) s)\<lparr>ipc := I_Done\<rparr>)
           | Help \<Rightarrow> Some ((set_shared (\<lambda>a. a\<lparr>out := out a @ [Help_table]\<rparr>) s)\<lparr>ipc := I_Check\<rparr>)
           | Unknown \<Rightarrow> Some ((set_shared (\<lambda>a. a\<lparr>out := out a @ [Unknown_command]\<rparr>) s)\<lparr>ipc := I_Check\<rparr>)
           | _ \<Rightarrow> Some (s\<lparr>ipc := I_Acquire c\<rparr>))
      | I_Acquire c \<Rightarrow>
          (if holder s = None then Some (s\<lparr>holder := Some Input, ipc := I_Crit c\<rparr>) else None)
      | I_Crit c \<Rightarrow>
          (case handle_command (clock_src s (ncmd s)) c (shared s) of
             Inl e \<Rightarrow> terminate e s
           | Inr (_, st') \<Rightarrow> Some (s\<lparr>shared := st', ncmd := Suc (ncmd s), ipc := I_Release\<rparr>))
      | I_Release \<Rightarrow> Some (s\<lparr>holder := None, ipc := I_Check\<rparr>)
      | I_Check \<Rightarrow> Some (s\<lparr>ipc := if stopInputThread (shared s) then I_Done else I_Top\<rparr>)
      | I_Done \<Rightarrow> None)"

section \<open>The process\<close>

text \<open>A step of thread \<open>t\<close>; \<open>None\<close> when it is blocked, has returned, or the process has ended.\<close>

definition step :: "detector \<Rightarrow> thread \<Rightarrow> sys \<Rightarrow> sys option" where
  "step det t s =
     (if crashed s \<noteq> None then None
      else case t of Main \<Rightarrow> main_step det s | Input \<Rightarrow> input_step s)"

inductive reach :: "detector \<Rightarrow> sys \<Rightarrow> sys \<Rightarrow> bool" for det s0 where
  reach_init: "reach det s0 s0"
| reach_step: "reach det s0 s \<Longrightarrow> step det t s = Some s' \<Longrightarrow> reach det s0 s'"

text \<open>A run under a given schedule; a thread that cannot move loses its turn.\<close>

fun run_sched :: "detector \<Rightarrow> thread list \<Rightarrow> sys \<Rightarrow> sys" where
  "run_sched det [] s = s"
| "run_sched det (t # ts) s =
     (case step det t s of None \<Rightarrow> run_sched det ts s | Some s' \<Rightarrow> run_sched det ts s')"

text \<open>The process has exited normally (\<open>return 0\<close>).\<close>

definition exited :: "sys \<Rightarrow> bool" where
  "exited s \<longleftrightarrow> mpc s = M_Exit \<and> crashed s = None"

text \<open>\<open>n\<close> steps of one thread; \<open>None\<close> if it blocks or the process ends before.\<close>

fun steps :: "detector \<Rightarrow> thread \<Rightarrow> nat \<Rightarrow> sys \<Rightarrow> sys option" where
  "steps det t 0 s = Some s"
| "steps det t (Suc n) s = (case step det t s of None \<Rightarrow> None | Some s' \<Rightarrow> steps det t n s')"

section \<open>The invariant of the two threads\<close>

text \<open>The program counters inside a \<open>lock_guard\<close> block.\<close>

definition main_crit :: "mpc \<Rightarrow> bool" where
  "main_crit pc = (case pc of M_Clear _ \<Rightarrow> True | M_Cvt _ \<Rightarrow> True | M_Loop _ _ _ _ \<Rightarrow> True
                   | M_Unlock _ \<Rightarrow> True | _ \<Rightarrow> False)"

definition input_crit :: "ipc \<Rightarrow> bool" where
  "input_crit pc = (case pc of I_Crit _ \<Rightarrow> True | I_Release \<Rightarrow> True | _ \<Rightarrow> False)"

text \<open>The mutex is held by exactly the thread inside its block.\<close>

definition lock_ok :: "sys \<Rightarrow> bool" where
  "lock_ok s \<longleftrightarrow> (holder s = Some Main \<longleftrightarrow> main_crit (mpc s)) \<and>
                 (holder s = Some Input \<longleftrightarrow> input_crit (ipc s))"

text \<open>
  The buffer is whole: empty, or the faces of the last finished detection, all of
  \<open>accepted\<close> for the limit that detection ran with.
\<close>

definition whole :: "detector \<Rightarrow> sys \<Rightarrow> bool" where
  "whole det s \<longleftrightarrow> capturedFaces (shared s) = [] \<or>
     (\<exists>g m. last_det s = Some (g, m) \<and> capturedFaces (shared s) = map (face_of g) (accepted m (det g)))"

text \<open>
  Inside the capture loop's block the buffer is empty after \<open>clear()\<close> and then holds the
  faces of the first \<open>faceCount\<close> regions; elsewhere it is whole.
\<close>

definition buf_ok :: "detector \<Rightarrow> sys \<Rightarrow> bool" where
  "buf_ok det s \<longleftrightarrow>
     (case mpc s of
        M_Cvt _ \<Rightarrow> capturedFaces (shared s) = []
      | M_Loop _ g rs cnt \<Rightarrow>
          0 \<le> sint cnt \<and> sint cnt \<le> max 0 (sint (maxFaces (shared s))) \<and>
          nat (sint cnt) \<le> length (det g) \<and>
          capturedFaces (shared s) = map (face_of g) (take (nat (sint cnt)) (det g)) \<and>
          rs = drop (nat (sint cnt)) (det g)
      | _ \<Rightarrow> whole det s)"

definition sys_inv :: "detector \<Rightarrow> sys \<Rightarrow> bool" where
  "sys_inv det s \<longleftrightarrow> lock_ok s \<and> buf_ok det s"

section \<open>Lemmas\<close>

lemmas sys_inv_simps = sys_inv_def lock_ok_def buf_ok_def whole_def main_crit_def input_crit_def
  set_shared_def terminate_def

lemma reach_run_sched: "reach det s0 s \<Longrightarrow> reach det s0 (run_sched det ts s)"
proof (induction ts arbitrary: s)
  case Nil
  then show ?case by simp
next
  case (Cons t ts)
  then show ?case by (cases "step det t s") (auto intro: reach_step)
qed

lemma take_at_loop_exit:
  assumes "0 \<le> i" "i \<le> max 0 j" "drop (nat i) xs = [] \<or> j \<le> i"
  shows "take (nat i) xs = take (nat j) xs"
  using assms by (cases "j \<le> 0") (auto simp: min_def nat_le_eq_zle)

lemma push_face:
  assumes "roi g r = Inr m" "resize m 200 200 = Inr m'"
  shows "m' = face_of g r"
  using assms by (auto simp: roi_def resize_def face_of_def split: if_splits)

text \<open>One pass of the \<open>for\<close> loop: the counter stays in range and counts the faces pushed.\<close>

lemma loop_push:
  assumes "0 \<le> sint (cnt::int32)" "sint cnt < sint (mx::int32)" "drop (nat (sint cnt)) xs = r # rs"
  shows "0 \<le> sint (cnt + 1) \<and> sint (cnt + 1) \<le> max 0 (sint mx) \<and> nat (sint (cnt + 1)) \<le> length xs \<and>
         take (nat (sint (cnt + 1))) xs = take (nat (sint cnt)) xs @ [r] \<and>
         rs = drop (nat (sint (cnt + 1))) xs"
proof -
  have "sint (cnt + 1) = sint cnt + 1" using assms(2) by (rule sint_incr)
  moreover have "nat (sint cnt + 1) = Suc (nat (sint cnt))" using assms(1) by simp
  moreover have "nat (sint cnt) < length xs" using assms(3) by (metis drop_eq_Nil2 list.distinct(1) not_le)
  ultimately show ?thesis using assms drop_eq_Cons [OF assms(3)] by simp
qed

lemma handle_command_buffer:
  "handle_command clk c st = Inr (b, st') \<Longrightarrow>
   capturedFaces st' = capturedFaces st \<or> capturedFaces st' = []"
  by (auto simp: handle_command_def showCapturedFaces_def setMaxFaces_def clearCapturedFaces_def
           split: command.splits sum.splits option.splits prod.splits)

lemma sys_inv_init: "sys_inv det (sys_init d cam ks ls nl clk)"
  by (simp add: sys_inv_simps sys_init_def app_init_def)

text \<open>The invariant reads only the holder, the capture loop's counter, the buffer, the limit and the ghost.\<close>

lemma sys_inv_frame:
  assumes "holder s' = holder s" "mpc s' = mpc s" "input_crit (ipc s') = input_crit (ipc s)"
    "capturedFaces (shared s') = capturedFaces (shared s)" "maxFaces (shared s') = maxFaces (shared s)"
    "last_det s' = last_det s"
  shows "sys_inv det s' = sys_inv det s"
  unfolding sys_inv_def lock_ok_def buf_ok_def whole_def using assms by (simp split: mpc.split)

lemma buf_ok_outside: "\<not> main_crit (mpc s) \<Longrightarrow> buf_ok det s \<longleftrightarrow> whole det s"
  by (auto simp: buf_ok_def main_crit_def split: mpc.splits)

lemma main_step_inv:
  assumes inv: "sys_inv det s" and st: "main_step det s = Some s'"
  shows "sys_inv det s'"
proof (cases "mpc s")
  case (M_Loop fr g rs cnt)
  let ?mx = "maxFaces (shared s)"
  have lp: "holder s = Some Main" "\<not> input_crit (ipc s)" "0 \<le> sint cnt" "sint cnt \<le> max 0 (sint ?mx)"
    "nat (sint cnt) \<le> length (det g)"
    "capturedFaces (shared s) = map (face_of g) (take (nat (sint cnt)) (det g))"
    "rs = drop (nat (sint cnt)) (det g)"
    using inv M_Loop by (auto simp: sys_inv_simps)
  show ?thesis
  proof (cases "rs = [] \<or> sint ?mx \<le> sint cnt")
    case True
    then have "s' = s\<lparr>mpc := M_Unlock fr, last_det := Some (g, ?mx)\<rparr>"
      using st [unfolded main_step_def] M_Loop by (auto split: list.splits)
    then show ?thesis using inv lp True take_at_loop_exit [of "sint cnt" "sint ?mx" "det g"]
      by (auto simp: sys_inv_simps accepted_def)
  next
    case False
    then obtain r rs' where rs: "rs = r # rs'" and lt: "sint cnt < sint ?mx"
      by (auto simp: neq_Nil_conv)
    show ?thesis
    proof (cases "roi g r")
      case (Inl e)
      then show ?thesis using st [unfolded main_step_def] M_Loop rs lt inv by (auto simp: sys_inv_simps)
    next
      case (Inr m)
      show ?thesis
      proof (cases "resize m 200 200")
        case (Inl e)
        then show ?thesis using st [unfolded main_step_def] M_Loop rs lt inv Inr by (auto simp: sys_inv_simps)
      next
        case (Inr m')
        have "m' = face_of g r" using push_face \<open>roi g r = Inr m\<close> Inr .
        then have "s' = (set_shared (\<lambda>a. a\<lparr>capturedFaces := capturedFaces a @ [face_of g r]\<rparr>) s)
                           \<lparr>mpc := M_Loop (rectangle fr r) g rs' (cnt + 1)\<rparr>"
          using st [unfolded main_step_def] M_Loop rs lt Inr \<open>roi g r = Inr m\<close> by simp
        then show ?thesis using lp lt rs loop_push [of cnt ?mx "det g" r rs']
          by (auto simp: sys_inv_simps)
      qed
    qed
  qed
qed (insert inv st [unfolded main_step_def],
     auto simp: sys_inv_simps waitKey_def split: if_splits sum.splits list.splits prod.splits)

lemma input_step_inv:
  assumes inv: "sys_inv det s" and st: "input_step s = Some s'"
  shows "sys_inv det s'"
proof (cases "ipc s")
  case (I_Crit c)
  have out: "\<not> main_crit (mpc s)" "holder s = Some Input" "whole det s"
    using inv I_Crit by (auto simp: sys_inv_def lock_ok_def input_crit_def buf_ok_outside)
  show ?thesis
  proof (cases "handle_command (clock_src s (ncmd s)) c (shared s)")
    case (Inl e)
    then show ?thesis using st [unfolded input_step_def] I_Crit inv sys_inv_frame [of s' s det]
      by (auto simp: terminate_def)
  next
    case (Inr r)
    then obtain b st' where h: "handle_command (clock_src s (ncmd s)) c (shared s) = Inr (b, st')"
      by (cases r) auto
    then have "s' = s\<lparr>shared := st', ncmd := Suc (ncmd s), ipc := I_Release\<rparr>"
      using st [unfolded input_step_def] I_Crit by simp
    then show ?thesis using out handle_command_buffer [OF h] buf_ok_outside [of s' det]
      by (auto simp: sys_inv_def lock_ok_def input_crit_def whole_def)
  qed
next
  case (I_Acquire c)
  then have "holder s = None" "s' = s\<lparr>holder := Some Input, ipc := I_Crit c\<rparr>"
    using st [unfolded input_step_def] by (auto split: if_splits)
  then show ?thesis using inv I_Acquire buf_ok_outside [of s' det] buf_ok_outside [of s det]
    by (auto simp: sys_inv_def lock_ok_def input_crit_def whole_def)
next
  case I_Release
  then have "s' = s\<lparr>holder := None, ipc := I_Check\<rparr>" using st [unfolded input_step_def] by simp
  then show ?thesis using inv I_Release buf_ok_outside [of s' det] buf_ok_outside [of s det]
    by (auto simp: sys_inv_def lock_ok_def input_crit_def whole_def)
next
  case I_Done
  then show ?thesis using st [unfolded input_step_def] by simp
qed (insert inv st [unfolded input_step_def] sys_inv_frame [of s' s det],
     auto simp: input_crit_def getline_def set_shared_def terminate_def
          split: list.splits command.splits sum.splits if_splits)

lemma step_inv: "sys_inv det s \<Longrightarrow> step det t s = Some s' \<Longrightarrow> sys_inv det s'"
  unfolding step_def by (cases t) (auto intro: main_step_inv input_step_inv split: if_splits)

lemma reach_inv: "reach det (sys_init d cam ks ls nl clk) s \<Longrightarrow> sys_inv det s"
proof (induction rule: reach.induct)
  case reach_init
  then show ?case by (rule sys_inv_init)
next
  case (reach_step s t s')
  then show ?case by (blast intro: step_inv)
qed

text \<open>
  C11. No torn read (the spec's property 6): whenever the input thread runs a handler
  (\<open>capture\<close>, \<open>clear\<close>, \<open>show\<close>, \<open>setmax\<close>, \<open>rename\<close>), the capture loop is outside
  its block and the buffer is whole: empty, or every face the last finished detection
  accepted under the limit it ran with, never part of a frame's faces.
\<close>

theorem handler_sees_whole_buffer:
  assumes "reach det (sys_init d cam ks ls nl clk) s" and "ipc s = I_Crit c"
  shows "\<not> main_crit (mpc s) \<and>
         (capturedFaces (shared s) = [] \<or>
          (\<exists>g m. last_det s = Some (g, m) \<and> capturedFaces (shared s) = map (face_of g) (accepted m (det g))))"
proof -
  have inv: "sys_inv det s" using assms(1) by (rule reach_inv)
  then have out: "\<not> main_crit (mpc s)" using assms(2) by (auto simp: sys_inv_def lock_ok_def input_crit_def)
  then have "whole det s" using inv buf_ok_outside [OF out] by (simp add: sys_inv_def)
  with out show ?thesis by (simp add: whole_def)
qed

theorem handler_sees_whole_buffer_witness:
  "ipc (run_sched two_faces (replicate 8 Main @ replicate 4 Input)
          (sys_init (Some []) [camera_frame 1] [] [''show''] True (\<lambda>k. clock_at k))) = I_Crit ''show'' \<and>
   \<not> main_crit (mpc (run_sched two_faces (replicate 8 Main @ replicate 4 Input)
          (sys_init (Some []) [camera_frame 1] [] [''show''] True (\<lambda>k. clock_at k)))) \<and>
   (capturedFaces (shared (run_sched two_faces (replicate 8 Main @ replicate 4 Input)
          (sys_init (Some []) [camera_frame 1] [] [''show''] True (\<lambda>k. clock_at k)))) = [] \<or>
    (\<exists>g m. last_det (run_sched two_faces (replicate 8 Main @ replicate 4 Input)
          (sys_init (Some []) [camera_frame 1] [] [''show''] True (\<lambda>k. clock_at k))) = Some (g, m) \<and>
       capturedFaces (shared (run_sched two_faces (replicate 8 Main @ replicate 4 Input)
          (sys_init (Some []) [camera_frame 1] [] [''show''] True (\<lambda>k. clock_at k)))) =
       map (face_of g) (accepted m (two_faces g))))"
proof -
  define S where "S = run_sched two_faces (replicate 8 Main @ replicate 4 Input)
          (sys_init (Some []) [camera_frame 1] [] [''show''] True (\<lambda>k. clock_at k))"
  have r: "reach two_faces (sys_init (Some []) [camera_frame 1] [] [''show''] True (\<lambda>k. clock_at k)) S"
    unfolding S_def by (rule reach_run_sched [OF reach_init])
  have c: "ipc S = I_Crit ''show''" unfolding S_def by code_simp
  show ?thesis using handler_sees_whole_buffer [OF r c] c unfolding S_def by simp
qed

text \<open>
  C12. Bounds of \<open>faceCount\<close>: in every reachable state inside the detection loop, the
  counter is between 0 and the limit (0 when the limit is not positive), so
  \<open>faceCount++\<close> never overflows, and it is the number of faces pushed since
  \<open>clear()\<close>.
\<close>

theorem face_count_bounds:
  assumes "reach det (sys_init d cam ks ls nl clk) s" and "mpc s = M_Loop fr g rs cnt"
  shows "0 \<le> sint cnt \<and> sint cnt \<le> max 0 (sint (maxFaces (shared s))) \<and>
         length (capturedFaces (shared s)) = nat (sint cnt)"
  using reach_inv [OF assms(1)] assms(2) by (auto simp: sys_inv_def buf_ok_def)

theorem face_count_bounds_witness:
  "\<exists>fr g rs cnt. mpc (run_sched two_faces (replicate 5 Main)
        (sys_init (Some []) [camera_frame 1] [] [] True (\<lambda>k. clock_at k))) = M_Loop fr g rs cnt \<and>
     0 \<le> sint cnt \<and>
     sint cnt \<le> max 0 (sint (maxFaces (shared (run_sched two_faces (replicate 5 Main)
        (sys_init (Some []) [camera_frame 1] [] [] True (\<lambda>k. clock_at k)))))) \<and>
     length (capturedFaces (shared (run_sched two_faces (replicate 5 Main)
        (sys_init (Some []) [camera_frame 1] [] [] True (\<lambda>k. clock_at k))))) = nat (sint cnt)"
proof -
  define S where "S = run_sched two_faces (replicate 5 Main)
        (sys_init (Some []) [camera_frame 1] [] [] True (\<lambda>k. clock_at k))"
  have r: "reach two_faces (sys_init (Some []) [camera_frame 1] [] [] True (\<lambda>k. clock_at k)) S"
    unfolding S_def by (rule reach_run_sched [OF reach_init])
  have "case mpc S of M_Loop _ _ _ _ \<Rightarrow> True | _ \<Rightarrow> False" unfolding S_def by code_simp
  then obtain fr g rs cnt where m: "mpc S = M_Loop fr g rs cnt" by (cases "mpc S") auto
  show ?thesis using face_count_bounds [OF r m] m unfolding S_def by blast
qed

lemma detect_loop_prefix:
  "detect_loop maxF g rs cnt fr acc = Inr (fr', acc') \<Longrightarrow> \<exists>ys. acc' = acc @ ys"
proof (induction rs arbitrary: cnt fr acc)
  case Nil
  then show ?case by simp
next
  case (Cons r rs)
  then show ?case by (fastforce simp: Let_def split: if_splits sum.splits)
qed

lemma step_Main: "crashed s = None \<Longrightarrow> step det Main s = main_step det s"
  by (simp add: step_def)

lemma steps_Suc_Some:
  "step det t s = Some s1 \<Longrightarrow> steps det t (Suc n) s = steps det t n s1"
  by simp

lemma loop_steps:
  assumes "mpc s = M_Loop fr g rs cnt" "crashed s = None"
  shows "case detect_loop (maxFaces (shared s)) g rs cnt fr (capturedFaces (shared s)) of
           Inr (fr', acc') \<Rightarrow>
             steps det Main (Suc (length acc' - length (capturedFaces (shared s)))) s =
               Some (s\<lparr>shared := (shared s)\<lparr>capturedFaces := acc'\<rparr>, mpc := M_Unlock fr',
                       last_det := Some (g, maxFaces (shared s))\<rparr>)
         | Inl e \<Rightarrow> \<exists>n s'. steps det Main n s = Some s' \<and> crashed s' = Some (Cv_failed e)"
  using assms
proof (induction rs arbitrary: s fr cnt)
  case Nil
  then show ?case by (simp add: step_Main main_step_def)
next
  case (Cons r rs)
  let ?mx = "maxFaces (shared s)" and ?acc = "capturedFaces (shared s)"
  show ?case
  proof (cases "sint ?mx \<le> sint cnt")
    case True
    then show ?thesis using Cons.prems by (simp add: step_Main main_step_def)
  next
    case False
    show ?thesis
    proof (cases "roi g r")
      case (Inl e)
      then have "steps det Main 1 s = Some (s\<lparr>crashed := Some (Cv_failed e)\<rparr>)"
        using False Cons.prems by (simp add: step_Main main_step_def terminate_def)
      then show ?thesis using False Inl by (simp add: Let_def del: steps.simps) (rule exI [of _ 1], simp)
    next
      case (Inr m)
      show ?thesis
      proof (cases "resize m 200 200")
        case (Inl e)
        then have "steps det Main 1 s = Some (s\<lparr>crashed := Some (Cv_failed e)\<rparr>)"
          using False Cons.prems Inr by (simp add: step_Main main_step_def terminate_def)
        then show ?thesis using False Inl Inr by (simp add: Let_def del: steps.simps) (rule exI [of _ 1], simp)
      next
        case (Inr m')
        define s1 where "s1 = (set_shared (\<lambda>a. a\<lparr>capturedFaces := capturedFaces a @ [m']\<rparr>) s)
                                \<lparr>mpc := M_Loop (rectangle fr r) g rs (cnt + 1)\<rparr>"
        have st: "step det Main s = Some s1"
          using False Cons.prems Inr \<open>roi g r = Inr m\<close> by (simp add: step_Main main_step_def s1_def)
        have s1: "mpc s1 = M_Loop (rectangle fr r) g rs (cnt + 1)" "crashed s1 = None"
          "maxFaces (shared s1) = ?mx" "capturedFaces (shared s1) = ?acc @ [m']"
          using Cons.prems by (simp_all add: s1_def set_shared_def)
        have dl: "detect_loop ?mx g (r # rs) cnt fr ?acc =
                  detect_loop ?mx g rs (cnt + 1) (rectangle fr r) (?acc @ [m'])"
          using False Inr \<open>roi g r = Inr m\<close> by (simp add: Let_def)
        show ?thesis
        proof (cases "detect_loop ?mx g rs (cnt + 1) (rectangle fr r) (?acc @ [m'])")
          case (Inl e)
          then obtain n s' where "steps det Main n s1 = Some s'" "crashed s' = Some (Cv_failed e)"
            using Cons.IH [OF s1(1,2)] s1(3,4) by auto
          then have "steps det Main (Suc n) s = Some s'" "crashed s' = Some (Cv_failed e)"
            using st by simp_all
          then show ?thesis using dl Inl by (simp del: steps.simps) blast
        next
          case (Inr res)
          obtain fr' acc' where res: "res = (fr', acc')" by (cases res)
          obtain ys where ys: "acc' = (?acc @ [m']) @ ys"
            using detect_loop_prefix Inr res by blast
          have "steps det Main (Suc (length acc' - length (?acc @ [m']))) s1 =
               Some (s1\<lparr>shared := (shared s1)\<lparr>capturedFaces := acc'\<rparr>, mpc := M_Unlock fr',
                       last_det := Some (g, ?mx)\<rparr>)"
            using Cons.IH [OF s1(1,2)] s1(3,4) Inr res by simp
          moreover have "Suc (length acc' - length ?acc) = Suc (Suc (length acc' - length (?acc @ [m'])))"
            using ys by simp
          ultimately show ?thesis using dl Inr res st
            by (simp add: s1_def set_shared_def)
        qed
      qed
    qed
  qed
qed

lemma capture_section_steps:
  assumes "mpc s = M_Clear fr" "crashed s = None"
  shows "case capture_critical det fr (shared s) of
           Inr (fr', st') \<Rightarrow>
             steps det Main (length (capturedFaces st') + 3) s =
               Some (s\<lparr>shared := st', mpc := M_Unlock fr',
                       last_det := Some (projr (cvtColor fr), maxFaces (shared s))\<rparr>)
         | Inl e \<Rightarrow> \<exists>n s'. steps det Main n s = Some s' \<and> crashed s' = Some e"
proof -
  define s1 where "s1 = (set_shared (\<lambda>a. a\<lparr>capturedFaces := []\<rparr>) s)\<lparr>mpc := M_Cvt fr\<rparr>"
  have st1: "step det Main s = Some s1" using assms by (simp add: step_Main main_step_def s1_def)
  show ?thesis
  proof (cases "cvtColor fr")
    case (Inl e)
    then have "steps det Main 2 s = Some (s1\<lparr>crashed := Some (Cv_failed e)\<rparr>)"
      using st1 assms by (simp add: numeral_2_eq_2 step_Main main_step_def terminate_def s1_def set_shared_def)
    then show ?thesis using Inl
      by (simp add: capture_critical_def detectFaces_def del: steps.simps) (rule exI [of _ 2], simp)
  next
    case (Inr g)
    define s2 where "s2 = s1\<lparr>mpc := M_Loop fr g (det g) 0\<rparr>"
    have st2: "step det Main s1 = Some s2" using Inr assms
      by (simp add: step_Main main_step_def s1_def s2_def set_shared_def)
    have s2: "mpc s2 = M_Loop fr g (det g) 0" "crashed s2 = None"
      "maxFaces (shared s2) = maxFaces (shared s)" "capturedFaces (shared s2) = []"
      using assms by (simp_all add: s1_def s2_def set_shared_def)
    note lp = loop_steps [OF s2(1,2), of det, unfolded s2(3,4)]
    show ?thesis
    proof (cases "detect_loop (maxFaces (shared s)) g (det g) 0 fr []")
      case (Inl e)
      then obtain n s' where "steps det Main n s2 = Some s'" "crashed s' = Some (Cv_failed e)"
        using lp by auto
      then have "steps det Main (Suc (Suc n)) s = Some s'" "crashed s' = Some (Cv_failed e)"
        using st1 st2 by simp_all
      then show ?thesis using Inl \<open>cvtColor fr = Inr g\<close>
        by (simp add: capture_critical_def detectFaces_def del: steps.simps) blast
    next
      case (Inr res)
      obtain fr' acc' where res: "res = (fr', acc')" by (cases res)
      have "steps det Main (Suc (length acc')) s2 =
              Some (s2\<lparr>shared := (shared s2)\<lparr>capturedFaces := acc'\<rparr>, mpc := M_Unlock fr',
                      last_det := Some (g, maxFaces (shared s))\<rparr>)"
        using lp Inr res by simp
      then have "steps det Main (length acc' + 3) s =
              Some (s2\<lparr>shared := (shared s2)\<lparr>capturedFaces := acc'\<rparr>, mpc := M_Unlock fr',
                      last_det := Some (g, maxFaces (shared s))\<rparr>)"
        using st1 st2 by (simp add: numeral_3_eq_3)
      then show ?thesis using Inr res \<open>cvtColor fr = Inr g\<close>
        by (simp add: capture_critical_def detectFaces_def s2_def s1_def set_shared_def)
    qed
  qed
qed

end
