(* ===== verification/Shutdown.thy ===== *)
theory Shutdown
  imports System
begin

text \<open>
  The process around the two threads (\<open>main\<close>, lines 104--118 and 186--189 of
  \<open>src/compscifinal.cpp\<close>): start-up, which loads the classifier and checks the camera
  before any thread starts, and the end of the process, \<open>return 0\<close> after \<open>join\<close> or
  \<open>std::terminate\<close> on an uncaught exception. The theorems are about how the process
  ends: the end of the camera stream never ends it, the capture loop ends only at the
  end of the stream or on Escape whatever \<open>exit\<close> did, and status 0 comes only after
  the input thread has returned.
\<close>

section \<open>Start-up and outcome\<close>

datatype start_error = Error_loading_cascade | Error_opening_capture

datatype process = Failed_start int start_error | Started sys

text \<open>
  \<open>faceCascade.load\<close> is tested before \<open>cap.isOpened()\<close>: a missing classifier is
  reported first even when the camera is also missing. Either failure returns -1 before
  the input thread is created.
\<close>

definition main_start ::
  "bool \<Rightarrow> bool \<Rightarrow> listing option \<Rightarrow> frame list \<Rightarrow> int list \<Rightarrow> string list \<Rightarrow> bool \<Rightarrow>
   (nat \<Rightarrow> clock) \<Rightarrow> process"
where
  "main_start cascade_ok cam_ok d cam ks ls nl clk =
     (if \<not> cascade_ok then Failed_start (-1) Error_loading_cascade
      else if \<not> cam_ok then Failed_start (-1) Error_opening_capture
      else Started (sys_init d cam ks ls nl clk))"

datatype outcome = Status int | Aborted crash | Running

definition outcome :: "sys \<Rightarrow> outcome" where
  "outcome s =
     (case crashed s of
        Some e \<Rightarrow> Aborted e
      | None \<Rightarrow> if mpc s = M_Exit then Status 0 else Running)"

text \<open>The process started with the given checks and run under a schedule.\<close>

definition run_process ::
  "bool \<Rightarrow> bool \<Rightarrow> detector \<Rightarrow> thread list \<Rightarrow> listing option \<Rightarrow> frame list \<Rightarrow> int list \<Rightarrow>
   string list \<Rightarrow> bool \<Rightarrow> (nat \<Rightarrow> clock) \<Rightarrow> outcome"
where
  "run_process cascade_ok cam_ok det sched d cam ks ls nl clk =
     (case main_start cascade_ok cam_ok d cam ks ls nl clk of
        Failed_start n _ \<Rightarrow> Status n
      | Started s0 \<Rightarrow> outcome (run_sched det sched s0))"

section \<open>The end of the camera stream\<close>

text \<open>
  The input thread, when no \<open>exit\<close> line is to come: it has not returned, and neither
  the command it holds nor the value of \<open>command\<close>, which \<open>getline\<close> keeps once
  \<open>cin\<close> has failed, is \<open>exit\<close>.
\<close>

definition no_exit_pc :: "ipc \<Rightarrow> bool" where
  "no_exit_pc pc =
     (case pc of
        I_Dispatch c \<Rightarrow> c \<noteq> ''exit''
      | I_Acquire c \<Rightarrow> c \<noteq> ''exit''
      | I_Crit c \<Rightarrow> c \<noteq> ''exit''
      | I_Done \<Rightarrow> False
      | _ \<Rightarrow> True)"

definition hang_inv :: "sys \<Rightarrow> bool" where
  "hang_inv s \<longleftrightarrow> camera s = [] \<and> (mpc s = M_Read \<or> mpc s = M_Join) \<and>
     ''exit'' \<notin> set (stdin s) \<and> command s \<noteq> ''exit'' \<and> \<not> stopInputThread (shared s) \<and>
     no_exit_pc (ipc s)"

section \<open>How the capture loop and the process end\<close>

text \<open>
  The keys typed so far are a prefix of the keys \<open>ks\<close> of the run: \<open>keys s\<close> is what is
  left of them. The capture loop has left its loop (\<open>join\<close> or after) only when the
  camera stream has ended or an Escape was among the keys read.
\<close>

definition exit_inv :: "int list \<Rightarrow> sys \<Rightarrow> bool" where
  "exit_inv ks s \<longleftrightarrow> (\<exists>n. keys s = drop n ks) \<and>
     ((mpc s = M_Join \<or> mpc s = M_Exit) \<longrightarrow>
        camera s = [] \<or> 27 \<in> set (take (length ks - length (keys s)) ks))"

text \<open>
  \<open>return 0\<close> comes after \<open>join\<close>, and the input thread returns only through the
  stop flag.
\<close>

definition join_inv :: "sys \<Rightarrow> bool" where
  "join_inv s \<longleftrightarrow> (mpc s = M_Exit \<longrightarrow> ipc s = I_Done) \<and> (ipc s = I_Done \<longrightarrow> stopInputThread (shared s))"

section \<open>Lemmas\<close>

lemma parse_command_Exit: "parse_command c = Exit \<longleftrightarrow> c = ''exit''"
  by (simp add: parse_command_def)

lemma handle_command_stop:
  "c \<noteq> ''exit'' \<Longrightarrow> handle_command clk c st = Inr (b, st') \<Longrightarrow> stopInputThread st' = stopInputThread st"
  by (auto simp: handle_command_def showCapturedFaces_def setMaxFaces_def clearCapturedFaces_def
                 parse_command_Exit [symmetric]
           split: command.splits sum.splits option.splits prod.splits)

lemma hang_main_step: "hang_inv s \<Longrightarrow> main_step det s = Some s' \<Longrightarrow> hang_inv s'"
  by (auto simp: hang_inv_def main_step_def no_exit_pc_def split: if_splits)

lemma hang_input_step: "hang_inv s \<Longrightarrow> input_step s = Some s' \<Longrightarrow> hang_inv s'"
proof (cases "ipc s")
  case (I_Crit c)
  assume h: "hang_inv s" and st: "input_step s = Some s'"
  show ?thesis
  proof (cases "handle_command (clock_src s (ncmd s)) c (shared s)")
    case (Inl e)
    then show ?thesis using h st I_Crit by (auto simp: input_step_def terminate_def hang_inv_def)
  next
    case (Inr r)
    then obtain b st' where hc: "handle_command (clock_src s (ncmd s)) c (shared s) = Inr (b, st')"
      by (cases r) auto
    have "c \<noteq> ''exit''" using h I_Crit by (simp add: hang_inv_def no_exit_pc_def)
    then show ?thesis using h st I_Crit hc handle_command_stop [OF _ hc]
      by (auto simp: input_step_def hang_inv_def no_exit_pc_def)
  qed
qed (auto simp: input_step_def hang_inv_def no_exit_pc_def getline_def set_shared_def terminate_def
              parse_command_Exit split: if_splits list.splits command.splits sum.splits)

lemma hang_reach: "reach det (sys_init d [] ks ls nl clk) s \<Longrightarrow> ''exit'' \<notin> set ls \<Longrightarrow> hang_inv s"
proof (induction rule: reach.induct)
  case reach_init
  then show ?case by (simp add: hang_inv_def sys_init_def app_init_def no_exit_pc_def)
next
  case (reach_step s t s')
  then show ?case
    by (cases t) (auto simp: step_def intro: hang_main_step hang_input_step split: if_splits)
qed

lemma keys_pop:
  assumes "drop n ks = x # rest"
  shows "drop (Suc n) ks = rest \<and> x \<in> set (take (length ks - length rest) ks) \<and>
         set (take (length ks - length (x # rest)) ks) \<subseteq> set (take (length ks - length rest) ks)"
proof -
  have n: "n < length ks" using assms by (metis drop_eq_Nil2 list.distinct(1) not_le)
  have "length rest = length ks - Suc n" using arg_cong [OF assms, of length] by simp
  then have l: "length ks - length rest = Suc n" "length ks - length (x # rest) = n" using n by simp_all
  show ?thesis using drop_eq_Cons [OF assms] unfolding l by auto
qed

lemma exit_main_step:
  assumes inv: "exit_inv ks s" and st: "main_step det s = Some s'"
  shows "exit_inv ks s'"
proof -
  obtain n where kn: "keys s = drop n ks" using inv by (auto simp: exit_inv_def)
  show ?thesis
  proof (cases "mpc s = M_Wait")
    case True
    show ?thesis
    proof (cases "keys s")
      case Nil
      then show ?thesis using st True kn
        by (auto simp: exit_inv_def main_step_def terminate_def set_shared_def waitKey_def
                 split: list.splits if_splits)
    next
      case (Cons x rest)
      then have kp: "drop n ks = x # rest" using kn by simp
      note kpop = keys_pop [OF kp]
      show ?thesis using st True Cons kn kpop
        by (auto simp: exit_inv_def main_step_def terminate_def set_shared_def waitKey_def
                 intro: exI [where x = n] exI [where x = "Suc n"] split: list.splits if_splits)
    qed
  next
    case False
    then show ?thesis using st inv
      by (auto simp: exit_inv_def main_step_def terminate_def set_shared_def
               split: mpc.splits list.splits if_splits sum.splits)
  qed
qed

lemma exit_input_step: "exit_inv ks s \<Longrightarrow> input_step s = Some s' \<Longrightarrow> exit_inv ks s'"
  by (auto simp: exit_inv_def input_step_def terminate_def set_shared_def
           split: ipc.splits prod.splits if_splits command.splits sum.splits)

lemma exit_reach: "reach det (sys_init d cam ks ls nl clk) s \<Longrightarrow> exit_inv ks s"
proof (induction rule: reach.induct)
  case reach_init
  have "\<exists>n. ks = drop n ks" by (rule exI [of _ 0]) simp
  then show ?case by (simp add: exit_inv_def sys_init_def)
next
  case (reach_step s t s')
  then show ?case
    by (cases t) (auto simp: step_def intro: exit_main_step exit_input_step split: if_splits)
qed

lemma join_main_step: "join_inv s \<Longrightarrow> main_step det s = Some s' \<Longrightarrow> join_inv s'"
  by (auto simp: join_inv_def main_step_def terminate_def set_shared_def waitKey_def
           split: mpc.splits list.splits if_splits sum.splits prod.splits)

lemma join_input_step: "join_inv s \<Longrightarrow> input_step s = Some s' \<Longrightarrow> join_inv s'"
  by (auto simp: join_inv_def input_step_def terminate_def set_shared_def
           split: ipc.splits prod.splits if_splits command.splits sum.splits)

lemma join_reach: "reach det (sys_init d cam ks ls nl clk) s \<Longrightarrow> join_inv s"
proof (induction rule: reach.induct)
  case reach_init
  then show ?case by (simp add: join_inv_def sys_init_def)
next
  case (reach_step s t s')
  then show ?case
    by (cases t) (auto simp: step_def intro: join_main_step join_input_step split: if_splits)
qed

text \<open>
  C13. The end of the camera stream does not end the process: started with a camera that
  gives no frame, and with standard input that holds no \<open>exit\<close> line (at its end
  \<open>getline\<close> gives empty lines, or the last line again when it has no newline), no
  reachable state has exited with status 0 or has the input thread returned.
  \<open>cap.read\<close> failing leaves the capture loop without setting \<open>stopInputThread\<close>,
  and \<open>join\<close> waits for an input thread nothing stops. The spec treats the end of the
  stream as a graceful shutdown.
\<close>

theorem stream_end_never_exits:
  assumes "reach det (sys_init d [] ks ls nl clk) s" and "''exit'' \<notin> set ls"
  shows "outcome s \<noteq> Status 0 \<and> ipc s \<noteq> I_Done"
proof -
  have "hang_inv s" using hang_reach [OF assms] .
  then show ?thesis by (auto simp: hang_inv_def outcome_def no_exit_pc_def split: option.splits)
qed

theorem stream_end_never_exits_witness:
  "mpc (run_sched two_faces (replicate 10 Main @ replicate 12 Input @ replicate 5 Main)
          (sys_init (Some []) [] [] [''help'', ''show''] True (\<lambda>k. clock_at k))) = M_Join \<and>
   outcome (run_sched two_faces (replicate 10 Main @ replicate 12 Input @ replicate 5 Main)
          (sys_init (Some []) [] [] [''help'', ''show''] True (\<lambda>k. clock_at k))) \<noteq> Status 0 \<and>
   ipc (run_sched two_faces (replicate 10 Main @ replicate 12 Input @ replicate 5 Main)
          (sys_init (Some []) [] [] [''help'', ''show''] True (\<lambda>k. clock_at k))) \<noteq> I_Done"
proof -
  have r: "reach two_faces (sys_init (Some []) [] [] [''help'', ''show''] True (\<lambda>k. clock_at k))
             (run_sched two_faces (replicate 10 Main @ replicate 12 Input @ replicate 5 Main)
               (sys_init (Some []) [] [] [''help'', ''show''] True (\<lambda>k. clock_at k)))"
    by (rule reach_run_sched [OF reach_init])
  have e: "''exit'' \<notin> set [''help'', ''show'']" by simp
  have "mpc (run_sched two_faces (replicate 10 Main @ replicate 12 Input @ replicate 5 Main)
          (sys_init (Some []) [] [] [''help'', ''show''] True (\<lambda>k. clock_at k))) = M_Join"
    by code_simp
  then show ?thesis using stream_end_never_exits [OF r e] by blast
qed

text \<open>
  C17. \<open>exit\<close> does not stop the capture loop: in every reachable state where the capture
  loop has left its loop (waiting in \<open>join\<close>, or returned), the camera stream has ended
  or an Escape was among the keys read. Nothing else ends it: the \<open>exit\<close> command sets
  \<open>stopInputThread\<close>, which only the input thread reads, so after \<open>exit\<close> the loop
  goes on reading, detecting and showing frames. The spec says the capture loop observes
  the stop flag and ends too.
\<close>

theorem exit_keeps_capturing:
  assumes "reach det (sys_init d cam ks ls nl clk) s" and "mpc s = M_Join \<or> mpc s = M_Exit"
  shows "camera s = [] \<or> 27 \<in> set (take (length ks - length (keys s)) ks)"
  using exit_reach [OF assms(1)] assms(2) by (auto simp: exit_inv_def)

theorem exit_keeps_capturing_witness:
  "mpc (run_sched two_faces (replicate 3 Input @ replicate 29 Main)
          (sys_init (Some []) [camera_frame 1, camera_frame 2, camera_frame 3] [] [''exit''] True (\<lambda>k. clock_at k)))
     = M_Exit \<and>
   camera (run_sched two_faces (replicate 3 Input @ replicate 29 Main)
          (sys_init (Some []) [camera_frame 1, camera_frame 2, camera_frame 3] [] [''exit''] True (\<lambda>k. clock_at k)))
     = []"
proof -
  define s where "s = run_sched two_faces (replicate 3 Input @ replicate 29 Main)
          (sys_init (Some []) [camera_frame 1, camera_frame 2, camera_frame 3] [] [''exit''] True (\<lambda>k. clock_at k))"
  have r: "reach two_faces (sys_init (Some []) [camera_frame 1, camera_frame 2, camera_frame 3] [] [''exit''] True (\<lambda>k. clock_at k)) s"
    unfolding s_def by (rule reach_run_sched [OF reach_init])
  have m: "mpc s = M_Exit" unfolding s_def by code_simp
  then have "camera s = []" using exit_keeps_capturing [OF r] by simp
  with m show ?thesis unfolding s_def by simp
qed

text \<open>
  C18. The process ends with status 0 only after \<open>join\<close> has returned: in every reachable
  state whose outcome is status 0 the input thread has returned, and it has returned
  because \<open>stopInputThread\<close> is set.
\<close>

theorem exit_status_after_join:
  assumes "reach det (sys_init d cam ks ls nl clk) s" and "outcome s = Status 0"
  shows "ipc s = I_Done \<and> stopInputThread (shared s)"
  using join_reach [OF assms(1)] assms(2)
  by (auto simp: join_inv_def outcome_def split: option.splits if_splits)

theorem exit_status_after_join_witness:
  "outcome (run_sched two_faces (replicate 3 Input @ replicate 9 Main @ [Input, Main])
     (sys_init (Some []) [camera_frame 1] [27] [''help''] True (\<lambda>k. clock_at k))) = Status 0 \<and>
   ipc (run_sched two_faces (replicate 3 Input @ replicate 9 Main @ [Input, Main])
     (sys_init (Some []) [camera_frame 1] [27] [''help''] True (\<lambda>k. clock_at k))) = I_Done"
proof -
  define s where "s = run_sched two_faces (replicate 3 Input @ replicate 9 Main @ [Input, Main])
     (sys_init (Some []) [camera_frame 1] [27] [''help''] True (\<lambda>k. clock_at k))"
  have r: "reach two_faces (sys_init (Some []) [camera_frame 1] [27] [''help''] True (\<lambda>k. clock_at k)) s"
    unfolding s_def by (rule reach_run_sched [OF reach_init])
  have o: "outcome s = Status 0" unfolding s_def by code_simp
  with exit_status_after_join [OF r o] show ?thesis unfolding s_def by simp
qed

end
