(* ===== verification/Serial.thy ===== *)
theory Serial
  imports System "HOL-Library.Sublist"
begin

text \<open>
  Serializability of the two threads: \<open>dataMutex\<close> makes every run of the step model
  (System) agree with a run of whole critical sections (\<open>run_events\<close>) in the order the
  mutex granted them. The frames of that run are the frames the capture loop read, in
  order; its commands are lines the input thread read, in order, the \<open>k\<close>-th with the
  clock of the \<open>k\<close>-th handler.
\<close>

section \<open>Events of a schedule\<close>

fun frames_of :: "event list \<Rightarrow> frame list" where
  "frames_of [] = []"
| "frames_of (Frame fr # es) = fr # frames_of es"
| "frames_of (Command _ _ # es) = frames_of es"

fun commands_of :: "event list \<Rightarrow> (clock \<times> string) list" where
  "commands_of [] = []"
| "commands_of (Frame _ # es) = commands_of es"
| "commands_of (Command clk c # es) = (clk, c) # commands_of es"

section \<open>The simulation relation\<close>

text \<open>
  \<open>lin_at det d cam ls clk s es a j k r F\<close>: the serial run \<open>es\<close> from \<open>app_init d\<close>
  ends in \<open>a\<close>, which has the limit and the directory of \<open>s\<close>; the camera has given its
  first \<open>j\<close> frames and standard input its first \<open>k\<close> lines. The buffer of \<open>a\<close> is
  that of \<open>s\<close> except inside the capture loop's block, where the rest of the detection
  loop computes what the whole loop on the frame \<open>F\<close> computes. A command the input
  thread holds is the next line of the run.
\<close>

text \<open>
  The lines \<open>getline\<close> has given: the first \<open>k\<close> lines, then the last line \<open>r\<close> more
  times (once \<open>cin\<close> is at end of file, \<open>command\<close> keeps the last line read).
\<close>

definition reads :: "string list \<Rightarrow> nat \<Rightarrow> nat \<Rightarrow> string list" where
  "reads ls k r = take k ls @ replicate r (last ls)"

definition lin_core ::
  "detector \<Rightarrow> listing option \<Rightarrow> frame list \<Rightarrow> string list \<Rightarrow> (nat \<Rightarrow> clock) \<Rightarrow> sys \<Rightarrow>
   event list \<Rightarrow> app \<Rightarrow> nat \<Rightarrow> nat \<Rightarrow> nat \<Rightarrow> bool"
where
  "lin_core det d cam ls clk s es a j k r \<longleftrightarrow>
     run_events det es (app_init d) = Inr a \<and>
     maxFaces a = maxFaces (shared s) \<and> dir a = dir (shared s) \<and>
     clock_src s = clk \<and> camera s = drop j cam \<and> stdin s = drop k ls \<and>
     map fst (commands_of es) = map clk [0..<ncmd s] \<and>
     subseq (map snd (commands_of es)) (reads ls k r) \<and>
     (cin_good s \<longrightarrow> r = 0) \<and>
     (\<not> cin_good s \<longrightarrow> length ls \<le> k \<and> (command s = [] \<or> command s = last ls))"

definition lin_input :: "ipc \<Rightarrow> event list \<Rightarrow> string list \<Rightarrow> bool" where
  "lin_input pc es consumed =
     (case pc of
        I_Dispatch c \<Rightarrow> c \<noteq> [] \<longrightarrow> subseq (map snd (commands_of es) @ [c]) consumed
      | I_Acquire c \<Rightarrow> subseq (map snd (commands_of es) @ [c]) consumed
      | I_Crit c \<Rightarrow> subseq (map snd (commands_of es) @ [c]) consumed
      | _ \<Rightarrow> True)"

definition lin_main :: "detector \<Rightarrow> sys \<Rightarrow> event list \<Rightarrow> app \<Rightarrow> frame list \<Rightarrow> frame \<Rightarrow> bool" where
  "lin_main det s es a read F =
     (case mpc s of
        M_Lock fr \<Rightarrow> frames_of es @ [fr] = read \<and> capturedFaces a = capturedFaces (shared s)
      | M_Clear fr \<Rightarrow> frames_of es @ [fr] = read \<and> capturedFaces a = capturedFaces (shared s)
      | M_Cvt fr \<Rightarrow> frames_of es @ [fr] = read \<and> capturedFaces (shared s) = []
      | M_Loop fr g rs cnt \<Rightarrow>
          frames_of es @ [F] = read \<and> cvtColor F = Inr g \<and>
          detect_loop (maxFaces (shared s)) g rs cnt fr (capturedFaces (shared s)) =
          detect_loop (maxFaces (shared s)) g (det g) 0 F []
      | _ \<Rightarrow> frames_of es = read \<and> capturedFaces a = capturedFaces (shared s))"

definition lin_at ::
  "detector \<Rightarrow> listing option \<Rightarrow> frame list \<Rightarrow> string list \<Rightarrow> (nat \<Rightarrow> clock) \<Rightarrow> sys \<Rightarrow>
   event list \<Rightarrow> app \<Rightarrow> nat \<Rightarrow> nat \<Rightarrow> nat \<Rightarrow> frame \<Rightarrow> bool"
where
  "lin_at det d cam ls clk s es a j k r F \<longleftrightarrow>
     lin_core det d cam ls clk s es a j k r \<and> lin_input (ipc s) es (reads ls k r) \<and>
     lin_main det s es a (take j cam) F"

section \<open>Lemmas\<close>

lemma frames_of_snoc [simp]:
  "frames_of (es @ [Frame fr]) = frames_of es @ [fr]" "frames_of (es @ [Command clk c]) = frames_of es"
  by (induction es rule: frames_of.induct) auto

lemma commands_of_snoc [simp]:
  "commands_of (es @ [Frame fr]) = commands_of es"
  "commands_of (es @ [Command clk c]) = commands_of es @ [(clk, c)]"
  by (induction es rule: commands_of.induct) auto

lemma run_events_snoc:
  "run_events det (es @ [e]) st =
     (case run_events det es st of Inl x \<Rightarrow> Inl x | Inr st' \<Rightarrow> run_events det [e] st')"
  by (induction det es st rule: run_events.induct) (auto split: sum.splits prod.splits)

lemma parse_command_Nil: "parse_command [] = Unknown"
  by (simp add: parse_command_def)

text \<open>A handler's effect on the buffer, the limit and the directory reads only those three.\<close>

lemma handle_command_prot:
  assumes "capturedFaces a = capturedFaces b" "maxFaces a = maxFaces b" "dir a = dir b"
    and "handle_command clk c b = Inr (r, b')"
  shows "\<exists>r' a'. handle_command clk c a = Inr (r', a') \<and> capturedFaces a' = capturedFaces b' \<and>
           maxFaces a' = maxFaces b' \<and> dir a' = dir b'"
  using assms
  by (auto simp: handle_command_def showCapturedFaces_def setMaxFaces_def
           split: command.splits sum.splits option.splits prod.splits)

lemma capture_critical_loop:
  assumes "cvtColor F = Inr g" "detect_loop (maxFaces a) g (det g) 0 F [] = Inr (fr, buf)"
  shows "capture_critical det F a = Inr (fr, a\<lparr>capturedFaces := buf\<rparr>)"
  using assms by (simp add: capture_critical_def detectFaces_def)

lemma reads_Suc: "reads ls k (Suc r) = reads ls k r @ [last ls]"
  by (simp add: reads_def replicate_append_same)

lemma last_drop_Cons: "drop k xs = [x] \<Longrightarrow> last xs = x"
  by (metis append_take_drop_id last_appendR list.distinct(1) last_ConsL)

lemma lin_input_Frame [simp]: "lin_input pc (es @ [Frame fr]) consumed = lin_input pc es consumed"
  by (simp add: lin_input_def cong: ipc.case_cong)

text \<open>The relation reads only the program counters, the buffer, the limit, the directory and the inputs.\<close>

lemma lin_at_frame:
  assumes "mpc s' = mpc s" "ipc s' = ipc s" "capturedFaces (shared s') = capturedFaces (shared s)"
    "maxFaces (shared s') = maxFaces (shared s)" "dir (shared s') = dir (shared s)"
    "clock_src s' = clock_src s" "camera s' = camera s" "stdin s' = stdin s" "ncmd s' = ncmd s"
    "cin_good s' = cin_good s" "command s' = command s"
  shows "lin_at det d cam ls clk s' es a j k r F = lin_at det d cam ls clk s es a j k r F"
  using assms by (simp add: lin_at_def lin_core_def lin_main_def cong: mpc.case_cong)

lemma detect_loop_exit:
  "rs = [] \<or> sint mx \<le> sint cnt \<Longrightarrow> detect_loop mx g rs cnt fr buf = Inr (fr, buf)"
  by (cases rs) auto

lemma main_step_keeps:
  assumes "main_step det s = Some s'"
  shows "stdin s' = stdin s \<and> cin_good s' = cin_good s \<and> command s' = command s \<and>
         ncmd s' = ncmd s \<and> clock_src s' = clock_src s \<and> ipc s' = ipc s \<and>
         maxFaces (shared s') = maxFaces (shared s) \<and> dir (shared s') = dir (shared s) \<and>
         (mpc s \<noteq> M_Read \<longrightarrow> camera s' = camera s)"
  using assms by (auto simp: main_step_def terminate_def set_shared_def waitKey_def
                       split: mpc.splits list.splits if_splits sum.splits prod.splits)

lemma lin_core_main:
  assumes "lin_core det d cam ls clk s es a j k r" "main_step det s = Some s'" "mpc s \<noteq> M_Read"
  shows "lin_core det d cam ls clk s' es a j k r"
  using main_step_keeps [OF assms(2)] assms(1,3) by (simp add: lin_core_def)

lemma lin_main_step_loop:
  assumes L: "lin_at det d cam ls clk s es a j k r F" and m: "mpc s = M_Loop fr g rs cnt"
    and st: "main_step det s = Some s'"
  shows "\<exists>es' a' F'. lin_at det d cam ls clk s' es' a' j k r F'"
proof -
  let ?mx = "maxFaces (shared s)" and ?buf = "capturedFaces (shared s)"
  have core: "lin_core det d cam ls clk s es a j k r" and inp: "lin_input (ipc s) es (reads ls k r)"
    and fr: "frames_of es @ [F] = take j cam" "cvtColor F = Inr g"
    and dl: "detect_loop ?mx g rs cnt fr ?buf = detect_loop ?mx g (det g) 0 F []"
    using L m by (auto simp: lin_at_def lin_main_def)
  show ?thesis
  proof (cases "rs = [] \<or> sint ?mx \<le> sint cnt")
    case True
    then have s': "s' = s\<lparr>mpc := M_Unlock fr, last_det := Some (g, ?mx)\<rparr>"
      using st m by (auto simp: main_step_def split: list.splits)
    have "detect_loop ?mx g (det g) 0 F [] = Inr (fr, ?buf)" using dl detect_loop_exit [OF True] by simp
    then have "capture_critical det F a = Inr (fr, a\<lparr>capturedFaces := ?buf\<rparr>)"
      using capture_critical_loop [where F = F and g = g and a = a and det = det and fr = fr and buf = ?buf] fr(2) core by (simp add: lin_core_def)
    then have "lin_at det d cam ls clk s' (es @ [Frame F]) (a\<lparr>capturedFaces := ?buf\<rparr>) j k r F"
      using core inp fr s' by (simp add: lin_at_def lin_core_def lin_main_def run_events_snoc)
    then show ?thesis by blast
  next
    case False
    then obtain rc rs' where rs: "rs = rc # rs'" and lt: "\<not> sint ?mx \<le> sint cnt"
      by (auto simp: neq_Nil_conv)
    show ?thesis
    proof (cases "\<exists>m m'. roi g rc = Inr m \<and> resize m 200 200 = Inr m'")
      case True
      then obtain m m' where ok: "roi g rc = Inr m" "resize m 200 200 = Inr m'" by blast
      then have s': "s' = (set_shared (\<lambda>a. a\<lparr>capturedFaces := capturedFaces a @ [m']\<rparr>) s)
                           \<lparr>mpc := M_Loop (rectangle fr rc) g rs' (cnt + 1)\<rparr>"
        using st m rs lt by (simp add: main_step_def)
      have "detect_loop ?mx g rs cnt fr ?buf = detect_loop ?mx g rs' (cnt + 1) (rectangle fr rc) (?buf @ [m'])"
        using rs lt ok by (simp add: Let_def)
      then have "lin_at det d cam ls clk s' es a j k r F"
        using core inp fr dl s' L by (simp add: lin_at_def lin_core_def lin_main_def set_shared_def)
      then show ?thesis by blast
    next
      case False
      then obtain e where "s' = s\<lparr>crashed := Some (Cv_failed e)\<rparr>"
        using st m rs lt by (auto simp: main_step_def terminate_def split: sum.splits)
      then have "lin_at det d cam ls clk s' es a j k r F" using L lin_at_frame [of s' s] by simp
      then show ?thesis by blast
    qed
  qed
qed

lemma lin_main_step_other:
  assumes L: "lin_at det d cam ls clk s es a j k r F" and st: "main_step det s = Some s'"
    and pc: "case mpc s of M_Read \<Rightarrow> False | M_Cvt _ \<Rightarrow> False | M_Loop _ _ _ _ \<Rightarrow> False | _ \<Rightarrow> True"
  shows "lin_at det d cam ls clk s' es a j k r F"
proof -
  have "mpc s \<noteq> M_Read" using pc by auto
  then have core: "lin_core det d cam ls clk s' es a j k r"
    using lin_core_main [OF _ st] L by (simp add: lin_at_def)
  have inp: "lin_input (ipc s') es (reads ls k r)"
    using L main_step_keeps [OF st] by (simp add: lin_at_def)
  have "lin_main det s' es a (take j cam) F"
    using L st pc by (auto simp: lin_at_def lin_main_def main_step_def set_shared_def waitKey_def terminate_def
                           split: mpc.splits list.splits if_splits prod.splits)
  with core inp show ?thesis by (simp add: lin_at_def)
qed

lemma lin_main_step:
  assumes L: "lin_at det d cam ls clk s es a j k r F" and st: "main_step det s = Some s'"
  shows "\<exists>es' a' j' F'. lin_at det d cam ls clk s' es' a' j' k r F'"
proof (cases "mpc s")
  case (M_Loop fr g rs cnt)
  then show ?thesis using lin_main_step_loop [OF L M_Loop st] by blast
next
  case M_Read
  show ?thesis
  proof (cases "camera s")
    case Nil
    have s': "s' = s\<lparr>mpc := M_Join\<rparr>" using st M_Read Nil by (simp add: main_step_def)
    have "lin_at det d cam ls clk s' es a j k r F"
      using L M_Read unfolding s' by (simp add: lin_at_def lin_core_def lin_main_def)
    then show ?thesis by blast
  next
    case (Cons fr frs)
    have s': "s' = s\<lparr>camera := frs, mpc := M_Lock fr\<rparr>" using st M_Read Cons by (simp add: main_step_def)
    have "drop j cam = fr # frs" using L Cons by (simp add: lin_at_def lin_core_def)
    note dc = drop_eq_Cons [OF this]
    then have "lin_at det d cam ls clk s' es a (Suc j) k r F"
      using L s' M_Read by (simp add: lin_at_def lin_core_def lin_main_def)
    then show ?thesis by blast
  qed
next
  case (M_Cvt fr)
  have core: "lin_core det d cam ls clk s' es a j k r"
    using lin_core_main [OF _ st] L M_Cvt by (simp add: lin_at_def)
  have inp: "lin_input (ipc s') es (reads ls k r)"
    using L main_step_keeps [OF st] by (simp add: lin_at_def)
  show ?thesis
  proof (cases "cvtColor fr")
    case (Inl e)
    then have "s' = s\<lparr>crashed := Some (Cv_failed e)\<rparr>"
      using st M_Cvt by (simp add: main_step_def terminate_def)
    then have "lin_at det d cam ls clk s' es a j k r F" using L lin_at_frame [of s' s] by simp
    then show ?thesis by blast
  next
    case (Inr g)
    then have "s' = s\<lparr>mpc := M_Loop fr g (det g) 0\<rparr>"
      using st M_Cvt by (simp add: main_step_def)
    then have "lin_main det s' es a (take j cam) fr"
      using L M_Cvt Inr by (simp add: lin_at_def lin_main_def)
    then have "lin_at det d cam ls clk s' es a j k r fr"
      using core inp by (simp add: lin_at_def)
    then show ?thesis by blast
  qed
next
  case (M_Lock fr) then show ?thesis using lin_main_step_other [OF L st] by auto
next
  case (M_Clear fr) then show ?thesis using lin_main_step_other [OF L st] by auto
next
  case (M_Unlock fr) then show ?thesis using lin_main_step_other [OF L st] by auto
next
  case (M_Show fr) then show ?thesis using lin_main_step_other [OF L st] by auto
next
  case M_Wait then show ?thesis using lin_main_step_other [OF L st] by auto
next
  case M_Join then show ?thesis using lin_main_step_other [OF L st] by auto
next
  case M_Exit then show ?thesis using lin_main_step_other [OF L st] by auto
qed

lemma lin_handler_step:
  assumes L: "lin_at det d cam ls clk s es a j k r F" and inv: "sys_inv det s" and pc: "ipc s = I_Crit c"
    and h: "handle_command (clock_src s (ncmd s)) c (shared s) = Inr (b, st')"
    and s': "s' = s\<lparr>shared := st', ncmd := Suc (ncmd s), ipc := I_Release\<rparr>"
  shows "\<exists>a'. lin_at det d cam ls clk s' (es @ [Command (clk (ncmd s)) c]) a' j k r F"
proof -
  have out: "\<not> main_crit (mpc s)" using inv pc by (auto simp: sys_inv_def lock_ok_def input_crit_def)
  have core: "lin_core det d cam ls clk s es a j k r" and inp: "lin_input (ipc s) es (reads ls k r)"
    and mn: "lin_main det s es a (take j cam) F"
    using L by (auto simp: lin_at_def)
  have buf: "capturedFaces a = capturedFaces (shared s)"
    using mn out by (auto simp: lin_main_def main_crit_def split: mpc.splits)
  have clk: "clock_src s = clk" using core by (simp add: lin_core_def)
  obtain r' a' where a': "handle_command (clk (ncmd s)) c a = Inr (r', a')"
    "capturedFaces a' = capturedFaces st'" "maxFaces a' = maxFaces st'" "dir a' = dir st'"
    using handle_command_prot [OF buf _ _ h] core clk by (auto simp: lin_core_def)
  have "lin_at det d cam ls clk s' (es @ [Command (clk (ncmd s)) c]) a' j k r F"
    using core inp mn pc a' s' out
    by (auto simp: lin_at_def lin_core_def lin_input_def lin_main_def run_events_snoc main_crit_def
             split: mpc.splits)
  then show ?thesis by blast
qed

lemma lin_main_cong:
  "mpc s' = mpc s \<Longrightarrow> capturedFaces (shared s') = capturedFaces (shared s) \<Longrightarrow>
   maxFaces (shared s') = maxFaces (shared s) \<Longrightarrow>
   lin_main det s' es a rd F = lin_main det s es a rd F"
  by (simp add: lin_main_def cong: mpc.case_cong)

lemma input_step_keeps:
  assumes "input_step s = Some s'" "case ipc s of I_Crit _ \<Rightarrow> False | I_Getline \<Rightarrow> False | _ \<Rightarrow> True"
  shows "stdin s' = stdin s \<and> cin_good s' = cin_good s \<and> command s' = command s \<and>
         ncmd s' = ncmd s \<and> clock_src s' = clock_src s \<and> camera s' = camera s \<and> mpc s' = mpc s \<and>
         capturedFaces (shared s') = capturedFaces (shared s) \<and>
         maxFaces (shared s') = maxFaces (shared s) \<and> dir (shared s') = dir (shared s)"
  using assms by (auto simp: input_step_def terminate_def set_shared_def
                       split: ipc.splits command.splits sum.splits if_splits)

lemma lin_input_step_other:
  assumes L: "lin_at det d cam ls clk s es a j k r F" and st: "input_step s = Some s'"
    and pc: "case ipc s of I_Crit _ \<Rightarrow> False | I_Getline \<Rightarrow> False | _ \<Rightarrow> True"
  shows "lin_at det d cam ls clk s' es a j k r F"
proof -
  note keep = input_step_keeps [OF st pc]
  have core: "lin_core det d cam ls clk s' es a j k r" using L keep by (simp add: lin_at_def lin_core_def)
  have mn: "lin_main det s' es a (take j cam) F" using L keep by (simp add: lin_at_def lin_main_def cong: mpc.case_cong)
  have "lin_input (ipc s') es (reads ls k r)"
    using L st pc by (auto simp: lin_at_def lin_input_def input_step_def terminate_def set_shared_def
                                 parse_command_Nil split: ipc.splits command.splits sum.splits if_splits)
  with core mn show ?thesis by (simp add: lin_at_def)
qed

lemma lin_input_step:
  assumes L: "lin_at det d cam ls clk s es a j k r F" and inv: "sys_inv det s" and st: "input_step s = Some s'"
  shows "\<exists>es' a' k' r'. lin_at det d cam ls clk s' es' a' j k' r' F"
proof (cases "ipc s")
  case (I_Crit c)
  show ?thesis
  proof (cases "handle_command (clock_src s (ncmd s)) c (shared s)")
    case (Inl e)
    then have "s' = s\<lparr>crashed := Some e\<rparr>" using st I_Crit by (simp add: input_step_def terminate_def)
    then have "lin_at det d cam ls clk s' es a j k r F" using L lin_at_frame [of s' s] by simp
    then show ?thesis by blast
  next
    case (Inr res)
    then obtain b st' where h: "handle_command (clock_src s (ncmd s)) c (shared s) = Inr (b, st')"
      by (cases res) auto
    then have "s' = s\<lparr>shared := st', ncmd := Suc (ncmd s), ipc := I_Release\<rparr>"
      using st I_Crit by (simp add: input_step_def)
    then show ?thesis using lin_handler_step [OF L inv I_Crit h] by blast
  qed
next
  case I_Getline
  have core: "lin_core det d cam ls clk s es a j k r" and mn: "lin_main det s es a (take j cam) F"
    and inp: "subseq (map snd (commands_of es)) (reads ls k r)"
    using L by (auto simp: lin_at_def lin_core_def)
  obtain c ls' g' where g: "getline (cin_good s) (stdin s) (stdin_nl s) (command s) = (c, ls', g')"
    by (cases "getline (cin_good s) (stdin s) (stdin_nl s) (command s)") auto
  have s': "s' = (set_shared (\<lambda>a. a\<lparr>out := out a @ [Prompt]\<rparr>) s)
                  \<lparr>stdin := ls', cin_good := g', command := c, ipc := I_Dispatch c\<rparr>"
    using st I_Getline g by (simp add: input_step_def)
  have mn': "lin_main det s' es a (take j cam) F" using mn lin_main_cong [of s' s] s'
    by (simp add: set_shared_def)
  show ?thesis
  proof (cases "cin_good s")
    case False
    then have gl: "c = command s" "ls' = stdin s" "\<not> g'" using g by (auto simp: getline_def)
    have "lin_core det d cam ls clk s' es a j k (Suc r)"
      using core s' gl False by (simp add: lin_core_def set_shared_def reads_Suc subseq_rev_drop_many)
    moreover have "lin_input (ipc s') es (reads ls k (Suc r))"
      using core s' gl False inp by (auto simp: lin_core_def lin_input_def reads_Suc)
    ultimately show ?thesis using mn' unfolding lin_at_def by blast
  next
    case True
    then have r0: "r = 0" using core by (simp add: lin_core_def)
    show ?thesis
    proof (cases "stdin s")
      case Nil
      then have gl: "c = []" "ls' = []" "\<not> g'" using g True by (auto simp: getline_def)
      have "drop k ls = []" using core Nil by (simp add: lin_core_def)
      then have "lin_core det d cam ls clk s' es a j k r"
        using core s' gl by (simp add: lin_core_def set_shared_def)
      moreover have "lin_input (ipc s') es (reads ls k r)" using s' gl by (simp add: lin_input_def)
      ultimately show ?thesis using mn' unfolding lin_at_def by blast
    next
      case (Cons l ls'')
      then have gl: "c = l" "ls' = ls''" "g' = (ls'' \<noteq> [] \<or> stdin_nl s)"
        using g True by (auto simp: getline_def)
      have dk: "drop k ls = l # ls''" using core Cons by (simp add: lin_core_def)
      note dc = drop_eq_Cons [OF dk]
      have lst: "ls'' = [] \<Longrightarrow> last ls = l" using last_drop_Cons [of k ls l] dk by simp
      have len: "ls'' = [] \<Longrightarrow> length ls \<le> Suc k" using dc by simp
      have rd: "reads ls (Suc k) 0 = reads ls k r @ [l]" using dc r0 by (simp add: reads_def)
      have "lin_core det d cam ls clk s' es a j (Suc k) 0"
        using core s' gl dc lst len inp rd by (auto simp: lin_core_def set_shared_def subseq_rev_drop_many)
      moreover have "lin_input (ipc s') es (reads ls (Suc k) 0)"
        using s' gl inp rd by (simp add: lin_input_def)
      ultimately show ?thesis using mn' unfolding lin_at_def by blast
    qed
  qed
next
  case I_Top
  have "lin_at det d cam ls clk s' es a j k r F" by (rule lin_input_step_other [OF L st]) (simp add: I_Top)
  then show ?thesis by blast
next
  case (I_Dispatch c)
  have "lin_at det d cam ls clk s' es a j k r F" by (rule lin_input_step_other [OF L st]) (simp add: I_Dispatch)
  then show ?thesis by blast
next
  case (I_Acquire c)
  have "lin_at det d cam ls clk s' es a j k r F" by (rule lin_input_step_other [OF L st]) (simp add: I_Acquire)
  then show ?thesis by blast
next
  case I_Release
  have "lin_at det d cam ls clk s' es a j k r F" by (rule lin_input_step_other [OF L st]) (simp add: I_Release)
  then show ?thesis by blast
next
  case I_Check
  have "lin_at det d cam ls clk s' es a j k r F" by (rule lin_input_step_other [OF L st]) (simp add: I_Check)
  then show ?thesis by blast
next
  case I_Done
  have "lin_at det d cam ls clk s' es a j k r F" by (rule lin_input_step_other [OF L st]) (simp add: I_Done)
  then show ?thesis by blast
qed

lemma lin_reach:
  assumes "reach det (sys_init d cam ks ls nl clk) s"
  shows "\<exists>es a j k r F. lin_at det d cam ls clk s es a j k r F"
  using assms
proof (induction rule: reach.induct)
  case reach_init
  have "lin_at det d cam ls clk (sys_init d cam ks ls nl clk) [] (app_init d) 0 0 0 F" for F
    by (simp add: lin_at_def lin_core_def lin_input_def lin_main_def sys_init_def)
  then show ?case by blast
next
  case (reach_step s t s')
  then obtain es a j k r F where L: "lin_at det d cam ls clk s es a j k r F" by blast
  have inv: "sys_inv det s" using reach_step.hyps(1) by (rule reach_inv)
  show ?case
  proof (cases t)
    case Main
    then have "main_step det s = Some s'" using reach_step.hyps(2) by (simp add: step_def split: if_splits)
    then show ?thesis using lin_main_step [OF L] by blast
  next
    case Input
    then have "input_step s = Some s'" using reach_step.hyps(2) by (simp add: step_def split: if_splits)
    then show ?thesis using lin_input_step [OF L inv] by blast
  qed
qed

text \<open>
  C14. Serializability: in every reachable state where the capture loop is outside its
  block, the buffer, the face limit and the capture directory are those of a serial run
  of whole critical sections from the start (\<open>run_events\<close>), whose frames are the
  first frames of the camera, in order, and whose commands are lines of standard input,
  in order, followed by repetitions of its last line, the \<open>k\<close>-th run with the clock
  of the \<open>k\<close>-th handler. The repetitions are \<open>getline\<close>'s: once \<open>cin\<close> has failed
  it leaves \<open>command\<close> as it was, and a last line without a newline is dispatched
  again on every pass.
\<close>

theorem serializable:
  assumes "reach det (sys_init d cam ks ls nl clk) s" and "\<not> main_crit (mpc s)"
  shows "\<exists>es a. run_events det es (app_init d) = Inr a \<and>
           capturedFaces a = capturedFaces (shared s) \<and> maxFaces a = maxFaces (shared s) \<and>
           dir a = dir (shared s) \<and> prefix (frames_of es) cam \<and>
           (\<exists>n. subseq (map snd (commands_of es)) (ls @ replicate n (last ls))) \<and>
           map fst (commands_of es) = map clk [0..<length (commands_of es)]"
proof -
  obtain es a j k r F where L: "lin_at det d cam ls clk s es a j k r F" using lin_reach [OF assms(1)] by blast
  have core: "lin_core det d cam ls clk s es a j k r" and mn: "lin_main det s es a (take j cam) F"
    using L by (auto simp: lin_at_def)
  have fr: "prefix (frames_of es) (take j cam)" and buf: "capturedFaces a = capturedFaces (shared s)"
    using mn assms(2) by (auto simp: lin_main_def main_crit_def split: mpc.splits
                               intro: prefixI [OF sym])
  have "prefix (frames_of es) cam" using fr take_is_prefix prefix_order.trans by blast
  moreover have "\<exists>n. subseq (map snd (commands_of es)) (ls @ replicate n (last ls))"
  proof
    have "subseq (map snd (commands_of es)) (take k ls @ replicate r (last ls))"
      using core by (simp add: lin_core_def reads_def)
    moreover have "subseq (take k ls @ replicate r (last ls)) (ls @ replicate r (last ls))"
      by (simp add: prefix_imp_subseq [OF take_is_prefix])
    ultimately show "subseq (map snd (commands_of es)) (ls @ replicate r (last ls))"
      by (rule subseq_order.trans)
  qed
  moreover have "map fst (commands_of es) = map clk [0..<length (commands_of es)]"
    using core by (simp add: lin_core_def) (metis length_map length_upt minus_nat.diff_0)
  ultimately show ?thesis using core buf unfolding lin_core_def by blast
qed

theorem serializable_witness:
  "let s = run_sched two_faces (replicate 9 Main @ replicate 6 Input)
             (sys_init (Some []) [camera_frame 1, camera_frame 2] [] [''capture''] True (\<lambda>k. clock_at k))
   in mpc s = M_Read \<and> ipc s = I_Check \<and>
      (\<exists>es a. run_events two_faces es (app_init (Some [])) = Inr a \<and>
         capturedFaces a = capturedFaces (shared s) \<and> maxFaces a = maxFaces (shared s) \<and>
         dir a = dir (shared s) \<and> prefix (frames_of es) [camera_frame 1, camera_frame 2] \<and>
         (\<exists>n. subseq (map snd (commands_of es)) ([''capture''] @ replicate n (last [''capture'']))) \<and>
         map fst (commands_of es) = map (\<lambda>k. clock_at k) [0..<length (commands_of es)])"
proof -
  define s where "s = run_sched two_faces (replicate 9 Main @ replicate 6 Input)
             (sys_init (Some []) [camera_frame 1, camera_frame 2] [] [''capture''] True (\<lambda>k. clock_at k))"
  have r: "reach two_faces (sys_init (Some []) [camera_frame 1, camera_frame 2] [] [''capture''] True (\<lambda>k. clock_at k)) s"
    unfolding s_def by (rule reach_run_sched [OF reach_init])
  have m: "mpc s = M_Read \<and> ipc s = I_Check" unfolding s_def by code_simp
  then have "\<not> main_crit (mpc s)" by (simp add: main_crit_def)
  then show ?thesis using serializable [OF r] m unfolding s_def [symmetric] Let_def by blast
qed

end
