(* ===== verification/Progress.thy ===== *)
theory Progress
  imports System
begin

text \<open>
  Properties of single passes of the two loops. The images the program handles are all
  200 by 200 (the size \<open>detectFaces\<close> resizes to), in the buffer and in the display
  window of the \<open>show\<close> blocks. With the mutex free, one pass of the capture loop (a frame read,
  detected, shown and a key polled) and one pass of the input loop (a line read and
  handled) end after finitely many steps of their thread: neither loop body can run
  forever on its own.
\<close>

definition faces_ok :: "sys \<Rightarrow> bool" where
  "faces_ok s \<longleftrightarrow>
     (\<forall>m \<in> set (capturedFaces (shared s)) \<union> set_option (viewer s). mrows m = 200 \<and> mcols m = 200)"

section \<open>Lemmas\<close>

lemma handle_command_faces:
  "handle_command clk c st = Inr (b, st') \<Longrightarrow>
   set (capturedFaces st') \<subseteq> set (capturedFaces st)"
  by (auto simp: handle_command_def showCapturedFaces_def setMaxFaces_def clearCapturedFaces_def
           split: command.splits sum.splits option.splits prod.splits)

lemma resize_200: "resize m 200 200 = Inr m' \<Longrightarrow> mrows m' = 200 \<and> mcols m' = 200"
  by (auto simp: resize_def split: if_splits)

lemma faces_main_step: "faces_ok s \<Longrightarrow> main_step det s = Some s' \<Longrightarrow> faces_ok s'"
  by (auto simp: faces_ok_def main_step_def set_shared_def terminate_def waitKey_def
           dest: resize_200 intro: nth_mem split: mpc.splits list.splits if_splits sum.splits prod.splits)

lemma faces_input_step: "faces_ok s \<Longrightarrow> input_step s = Some s' \<Longrightarrow> faces_ok s'"
proof (cases "ipc s")
  case (I_Crit c)
  assume f: "faces_ok s" and st: "input_step s = Some s'"
  show ?thesis
  proof (cases "handle_command (clock_src s (ncmd s)) c (shared s)")
    case (Inl e)
    then show ?thesis using f st I_Crit by (auto simp: input_step_def terminate_def faces_ok_def)
  next
    case (Inr r)
    then obtain b st' where h: "handle_command (clock_src s (ncmd s)) c (shared s) = Inr (b, st')"
      by (cases r) auto
    then show ?thesis using f st I_Crit handle_command_faces [OF h]
      by (auto simp: input_step_def faces_ok_def)
  qed
qed (auto simp: input_step_def faces_ok_def getline_def set_shared_def terminate_def
         split: if_splits list.splits command.splits sum.splits)

lemma faces_reach: "reach det (sys_init d cam ks ls nl clk) s \<Longrightarrow> faces_ok s"
proof (induction rule: reach.induct)
  case reach_init
  then show ?case by (simp add: faces_ok_def sys_init_def app_init_def)
next
  case (reach_step s t s')
  then show ?case
    by (cases t) (auto simp: step_def intro: faces_main_step faces_input_step split: if_splits)
qed

lemma detect_loop_length:
  "detect_loop mx g rs cnt fr acc = Inr (fr', acc') \<Longrightarrow> length acc' \<le> length acc + length rs"
proof (induction rs arbitrary: cnt fr acc)
  case Nil
  then show ?case by simp
next
  case (Cons r rs)
  then show ?case by (fastforce simp: Let_def split: if_splits sum.splits)
qed

lemma step_Main_Some: "crashed s = None \<Longrightarrow> main_step det s = Some s1 \<Longrightarrow> step det Main s = Some s1"
  by (simp add: step_def)

lemma step_Input_Some: "crashed s = None \<Longrightarrow> input_step s = Some s1 \<Longrightarrow> step det Input s = Some s1"
  by (simp add: step_def)

lemma steps_add: "steps det t m s = Some s1 \<Longrightarrow> steps det t (m + n) s = steps det t n s1"
proof (induction m arbitrary: s)
  case 0
  then show ?case by simp
next
  case (Suc m)
  then show ?case by (auto split: option.splits)
qed

lemma steps_snoc: "steps det t n s = Some s1 \<Longrightarrow> step det t s1 = Some s2 \<Longrightarrow> steps det t (Suc n) s = Some s2"
  using steps_add [of det t n s s1 1] by simp

lemma capture_critical_pending:
  "capture_critical det fr st = Inr (fr', st') \<Longrightarrow> pending st' = pending st"
  by (auto simp: capture_critical_def split: sum.splits)

text \<open>
  C15. Termination of a pass of the capture loop: from \<open>cap.read\<close> with a frame to read,
  the mutex free and no \<open>show\<close> block pending, the capture loop alone reaches
  \<open>cap.read\<close> again (or \<open>join\<close> after Escape) with the mutex released, or the process
  has crashed, after finitely many of its own steps.
\<close>

theorem capture_pass_ends:
  assumes "mpc s = M_Read" "camera s = fr # frs" "holder s = None" "crashed s = None"
    and "pending (shared s) = []"
  shows "\<exists>n s'. 0 < n \<and> steps det Main n s = Some s' \<and>
           (crashed s' \<noteq> None \<or> ((mpc s' = M_Read \<or> mpc s' = M_Join) \<and> holder s' = None))"
proof -
  define s2 where "s2 = s\<lparr>camera := frs, mpc := M_Lock fr, holder := Some Main, mpc := M_Clear fr\<rparr>"
  have st2: "steps det Main 2 s = Some s2"
    using assms by (simp add: numeral_2_eq_2 step_def main_step_def s2_def)
  have m2: "mpc s2 = M_Clear fr" "crashed s2 = None" "shared s2 = shared s"
    using assms by (simp_all add: s2_def)
  note sec = capture_section_steps [OF m2(1,2), of det]
  show ?thesis
  proof (cases "capture_critical det fr (shared s)")
    case (Inl e)
    then obtain n s' where "steps det Main n s2 = Some s'" "crashed s' = Some e"
      using sec m2(3) by auto
    then have "steps det Main (2 + n) s = Some s'" "crashed s' = Some e"
      using steps_add [OF st2] by simp_all
    then show ?thesis by (intro exI [of _ "2 + n"] exI [of _ s']) simp
  next
    case (Inr r)
    then obtain fr' st' where cc: "capture_critical det fr (shared s) = Inr (fr', st')" by (cases r) auto
    define s3 where "s3 = s2\<lparr>shared := st', mpc := M_Unlock fr',
                              last_det := Some (projr (cvtColor fr), maxFaces (shared s2))\<rparr>"
    have st3: "steps det Main (length (capturedFaces st') + 3) s2 = Some s3"
      using sec m2(3) cc by (simp add: s3_def)
    have pend: "pending st' = []" using capture_critical_pending [OF cc] assms(5) by simp
    define s5 where "s5 = s3\<lparr>holder := None, mpc := M_Show fr', window := Some fr', mpc := M_Wait\<rparr>"
    have st5: "steps det Main 2 s3 = Some s5"
      using assms(4) by (simp add: numeral_2_eq_2 step_def main_step_def s3_def s2_def s5_def)
    obtain k ks where wk: "waitKey (keys s5) = (k, ks)" by (cases "waitKey (keys s5)")
    define s6 where "s6 = (if k = 27
                           then (set_shared (\<lambda>a. a\<lparr>stopInputThread := True\<rparr>) s5)\<lparr>keys := ks, mpc := M_Join\<rparr>
                           else s5\<lparr>keys := ks, mpc := M_Read\<rparr>)"
    have "step det Main s5 = Some s6"
      using pend wk assms(4) by (simp add: step_def main_step_def s6_def s5_def s3_def s2_def)
    then have st6: "steps det Main 3 s3 = Some s6"
      using steps_add [OF st5, of 1] by (simp add: numeral_3_eq_3)
    have s6: "(mpc s6 = M_Read \<or> mpc s6 = M_Join) \<and> holder s6 = None"
      by (simp add: s6_def s5_def set_shared_def)
    have "steps det Main (2 + (length (capturedFaces st') + 3 + 3)) s =
          steps det Main (length (capturedFaces st') + 3 + 3) s2"
      by (rule steps_add [OF st2])
    also have "\<dots> = steps det Main 3 s3" by (rule steps_add [OF st3])
    also have "\<dots> = Some s6" by (rule st6)
    finally have "steps det Main (2 + (length (capturedFaces st') + 3 + 3)) s = Some s6" .
    then show ?thesis using s6
      by (intro exI [of _ "2 + (length (capturedFaces st') + 3 + 3)"] exI [of _ s6]) simp
  qed
qed

theorem capture_pass_ends_witness:
  "\<exists>n s'. 0 < n \<and> steps two_faces Main n (sys_init (Some []) [camera_frame 1] [] [] True (\<lambda>k. clock_at k)) = Some s' \<and>
     (crashed s' \<noteq> None \<or> ((mpc s' = M_Read \<or> mpc s' = M_Join) \<and> holder s' = None))"
  by (rule capture_pass_ends) (simp_all add: sys_init_def app_init_def)

text \<open>The handler's part of a pass: lock, handler, unlock, in three steps of the input thread.\<close>

lemma handler_part_ends:
  assumes "ipc s = I_Acquire c" "holder s = None" "crashed s = None"
  shows "\<exists>n s'. 0 < n \<and> n \<le> 3 \<and> steps det Input n s = Some s' \<and>
           (crashed s' \<noteq> None \<or> (ipc s' = I_Check \<and> holder s' = None))"
proof -
  define s1 where "s1 = s\<lparr>holder := Some Input, ipc := I_Crit c\<rparr>"
  have st1: "step det Input s = Some s1" using assms by (simp add: step_def input_step_def s1_def)
  show ?thesis
  proof (cases "handle_command (clock_src s (ncmd s)) c (shared s)")
    case (Inl e)
    then have "steps det Input 2 s = Some (s1\<lparr>crashed := Some e\<rparr>)"
      using st1 assms by (simp add: numeral_2_eq_2 step_def input_step_def terminate_def s1_def)
    then show ?thesis by (intro exI [of _ 2] exI [of _ "s1\<lparr>crashed := Some e\<rparr>"]) simp
  next
    case (Inr r)
    then obtain b st' where h: "handle_command (clock_src s (ncmd s)) c (shared s) = Inr (b, st')"
      by (cases r) auto
    define s3 where "s3 = s1\<lparr>shared := st', ncmd := Suc (ncmd s), ipc := I_Release, holder := None, ipc := I_Check\<rparr>"
    have "steps det Input 3 s = Some s3"
      using st1 h assms by (simp add: numeral_3_eq_3 step_def input_step_def s1_def s3_def)
    then show ?thesis by (intro exI [of _ 3] exI [of _ s3]) (simp add: s3_def)
  qed
qed

text \<open>
  C16. Termination of a pass of the input loop: from \<open>getline\<close>, with the mutex free,
  the input thread alone has handled the line within five of its steps: it is at the
  \<open>break\<close> test with the mutex released, or has returned after \<open>exit\<close>, or the
  process has crashed (an exception from \<open>stoi\<close> or a handler).
\<close>

theorem command_pass_ends:
  assumes "ipc s = I_Getline" "holder s = None" "crashed s = None"
  shows "\<exists>n s'. 0 < n \<and> n \<le> 5 \<and> steps det Input n s = Some s' \<and>
           (crashed s' \<noteq> None \<or> ((ipc s' = I_Check \<or> ipc s' = I_Done) \<and> holder s' = None))"
proof -
  obtain c ls' g' where g: "getline (cin_good s) (stdin s) (stdin_nl s) (command s) = (c, ls', g')"
    by (cases "getline (cin_good s) (stdin s) (stdin_nl s) (command s)") auto
  define s1 where "s1 = (set_shared (\<lambda>a. a\<lparr>out := out a @ [Prompt]\<rparr>) s)
                          \<lparr>stdin := ls', cin_good := g', command := c, ipc := I_Dispatch c\<rparr>"
  have st1: "steps det Input 1 s = Some s1" using assms g by (simp add: step_def input_step_def s1_def)
  have c1: "crashed s1 = None" "holder s1 = None" using assms by (simp_all add: s1_def set_shared_def)
  have acq: "\<exists>n s'. 0 < n \<and> n \<le> 5 \<and> steps det Input n s = Some s' \<and>
               (crashed s' \<noteq> None \<or> ((ipc s' = I_Check \<or> ipc s' = I_Done) \<and> holder s' = None))"
    if st2: "step det Input s1 = Some s2" and a2: "ipc s2 = I_Acquire c" "holder s2 = None" "crashed s2 = None"
    for s2
  proof -
    obtain n s' where n: "0 < n" "n \<le> 3" "steps det Input n s2 = Some s'"
      and fin: "crashed s' \<noteq> None \<or> (ipc s' = I_Check \<and> holder s' = None)"
      using handler_part_ends [OF a2] by blast
    have "steps det Input (1 + Suc n) s = steps det Input (Suc n) s1" by (rule steps_add [OF st1])
    also have "\<dots> = Some s'" using st2 n(3) by simp
    finally show ?thesis using n fin by (intro exI [of _ "1 + Suc n"] exI [of _ s']) auto
  qed
  have lockcmd: ?thesis if "input_step s1 = Some (s1\<lparr>ipc := I_Acquire c\<rparr>)"
    using that c1 by (intro acq [of "s1\<lparr>ipc := I_Acquire c\<rparr>"]) (simp_all add: step_def)
  show ?thesis
  proof (cases "parse_command c")
    case (SetMax arg)
    show ?thesis
    proof (cases "stoi arg")
      case (Inl e)
      then have "step det Input s1 = Some (s1\<lparr>crashed := Some (Stoi_failed e)\<rparr>)"
        using SetMax c1 by (simp add: step_def input_step_def terminate_def s1_def set_shared_def)
      then have "steps det Input 2 s = Some (s1\<lparr>crashed := Some (Stoi_failed e)\<rparr>)"
        using steps_snoc [OF st1] by (simp add: numeral_2_eq_2)
      then show ?thesis by (intro exI [of _ 2] exI [of _ "s1\<lparr>crashed := Some (Stoi_failed e)\<rparr>"]) simp
    next
      case (Inr m)
      then show ?thesis using SetMax by (intro lockcmd) (simp add: input_step_def s1_def set_shared_def)
    qed
  next
    case Exit
    define s2 where "s2 = (set_shared (\<lambda>a. a\<lparr>stopInputThread := True\<rparr>) s1)\<lparr>ipc := I_Done\<rparr>"
    have "step det Input s1 = Some s2"
      using Exit c1 by (simp add: step_def input_step_def s1_def s2_def set_shared_def)
    then have "steps det Input 2 s = Some s2" using steps_snoc [OF st1] by (simp add: numeral_2_eq_2)
    then show ?thesis using c1 by (intro exI [of _ 2] exI [of _ s2]) (simp add: s2_def set_shared_def)
  next
    case Help
    define s2 where "s2 = (set_shared (\<lambda>a. a\<lparr>out := out a @ [Help_table]\<rparr>) s1)\<lparr>ipc := I_Check\<rparr>"
    have "step det Input s1 = Some s2"
      using Help c1 by (simp add: step_def input_step_def s1_def s2_def set_shared_def)
    then have "steps det Input 2 s = Some s2" using steps_snoc [OF st1] by (simp add: numeral_2_eq_2)
    then show ?thesis using c1 by (intro exI [of _ 2] exI [of _ s2]) (simp add: s2_def set_shared_def)
  next
    case Unknown
    define s2 where "s2 = (set_shared (\<lambda>a. a\<lparr>out := out a @ [Unknown_command]\<rparr>) s1)\<lparr>ipc := I_Check\<rparr>"
    have "step det Input s1 = Some s2"
      using Unknown c1 by (simp add: step_def input_step_def s1_def s2_def set_shared_def)
    then have "steps det Input 2 s = Some s2" using steps_snoc [OF st1] by (simp add: numeral_2_eq_2)
    then show ?thesis using c1 by (intro exI [of _ 2] exI [of _ s2]) (simp add: s2_def set_shared_def)
  qed (rule lockcmd, simp add: input_step_def s1_def set_shared_def)+
qed

theorem command_pass_ends_witness:
  "\<exists>n s'. 0 < n \<and> n \<le> 5 \<and>
     steps two_faces Input n ((sys_init (Some []) [] [] [''clear''] True (\<lambda>k. clock_at k))\<lparr>ipc := I_Getline\<rparr>) = Some s' \<and>
     (crashed s' \<noteq> None \<or> ((ipc s' = I_Check \<or> ipc s' = I_Done) \<and> holder s' = None))"
  by (rule command_pass_ends) (simp_all add: sys_init_def)

text \<open>
  C21. The images are faces of 200 by 200 pixels: in every reachable state every face in
  the buffer, and the image a \<open>show\<close> block has put in the display window, is 200 by
  200. A block that finds its slot destroyed shows nothing: it ends the process.
\<close>

theorem faces_are_200:
  assumes "reach det (sys_init d cam ks ls nl clk) s"
    and "m \<in> set (capturedFaces (shared s)) \<or> viewer s = Some m"
  shows "mrows m = 200 \<and> mcols m = 200"
  using faces_reach [OF assms(1)] assms(2) by (auto simp: faces_ok_def)

theorem faces_are_200_witness:
  "mrows (hd (capturedFaces (shared (run_sched two_faces (replicate 8 Main)
      (sys_init (Some []) [camera_frame 1] [] [] True (\<lambda>k. clock_at k)))))) = 200 \<and>
   mcols (hd (capturedFaces (shared (run_sched two_faces (replicate 8 Main)
      (sys_init (Some []) [camera_frame 1] [] [] True (\<lambda>k. clock_at k)))))) = 200"
proof -
  define s where "s = run_sched two_faces (replicate 8 Main) (sys_init (Some []) [camera_frame 1] [] [] True (\<lambda>k. clock_at k))"
  have r: "reach two_faces (sys_init (Some []) [camera_frame 1] [] [] True (\<lambda>k. clock_at k)) s"
    unfolding s_def by (rule reach_run_sched [OF reach_init])
  have "capturedFaces (shared s) \<noteq> []" unfolding s_def by code_simp
  then have "hd (capturedFaces (shared s)) \<in> set (capturedFaces (shared s)) \<or>
             viewer s = Some (hd (capturedFaces (shared s)))" by simp
  from faces_are_200 [OF r this] show ?thesis unfolding s_def .
qed

end
