(* ===== verification/Spec2Isabelle.thy ===== *)
theory Spec2Isabelle
  imports Shutdown Serial Progress
begin

text \<open>
  \<^bold>\<open>A verification model of the face-capture program\<close> (\<open>src/compscifinal.cpp\<close>).

  \<^bold>\<open>The program.\<close> \<open>main\<close> loads a cascade classifier and opens a camera (either
  failure: exit status -1), starts an input thread, and runs the capture loop on the
  main thread. The two threads share the globals \<open>maxFaces\<close> (default 1) and
  \<open>dataMutex\<close>, and, by reference, \<open>capturedFaces\<close>, \<open>stopInputThread\<close> and the
  capture directory's path. The capture loop reads a frame, and with the mutex held
  clears \<open>capturedFaces\<close> and calls \<open>detectFaces\<close>; then it shows the frame, runs
  the blocks queued on the main dispatch queue, and stops on the Escape key. The input
  thread reads a line per pass and dispatches it: \<open>capture\<close> (\<open>saveCapturedFaces\<close>),
  \<open>clear\<close> (\<open>clearCapturedFaces\<close>), \<open>show\<close> (\<open>showCapturedFaces\<close>),
  \<open>setmax <n>\<close> (\<open>std::stoi\<close>, then \<open>setMaxFaces\<close>), \<open>rename <name>\<close>
  (\<open>renameFile\<close>), \<open>exit\<close>, \<open>help\<close>, and anything else.

  \<^bold>\<open>The theories.\<close>
  \<^item> \<open>Prelude\<close>: C++ \<open>int\<close> as \<open>int32\<close> (\<open>32 word\<close>) with the no-wrap lemma
    for increments, \<open>int\<close>/\<open>long\<close> ranges, prefixes, association lists with distinct
    keys, lists sorted newest first, walking a list by index; the collections
    \<open>model_defs\<close> and \<open>wf_rules\<close>.
  \<^item> \<open>Detect\<close>: \<open>detectFaces\<close> (lines 19--33) over the loop \<open>detect_loop\<close>;
    \<open>cvtColor\<close>, \<open>roi\<close> (\<open>gray(face)\<close>), \<open>resize\<close>, \<open>rectangle\<close>; the detector is a
    parameter (\<open>detector\<close>). Images are sizes plus the frame and region they come from.
    The contract \<open>detect_spec\<close> and the refinement lemma \<open>detectFaces_eq_spec\<close>.
  \<^item> \<open>Decimal\<close>: \<open>std::to_string\<close> (the index in a file name), \<open>put_time\<close> with
    \<open>%Y-%m-%d_%H-%M-%S\<close>, and libc++'s \<open>std::stoi\<close> over BSD \<open>strtol\<close>; what
    \<open>std::stoi\<close> skips (leading blanks) and ignores (text after the digits).
  \<^item> \<open>FileSys\<close>: the capture directory as a listing (\<open>None\<close>: missing);
    \<open>imwrite\<close>, \<open>saveCapturedFaces\<close> (lines 36--47), \<open>clearCapturedFaces\<close> (50--58),
    \<open>renameFile\<close> (77--102) with \<open>path::extension\<close>, the newest-first sort and POSIX
    rename.
  \<^item> \<open>Commands\<close>: the shared state \<open>app\<close>, the dispatch \<open>parse_command\<close>, a pass of
    the input loop \<open>handle_command\<close> and the capture loop's block as one atomic step,
    \<open>capture_critical\<close>; uncaught exceptions are \<open>crash\<close> values. \<open>show\<close>'s
    queued blocks are the indices of the vector slots they reference (\<open>pending\<close>).
  \<^item> \<open>Environment\<close>: the stub detector, camera and clock the witnesses run on.
  \<^item> \<open>System\<close>: the two threads step by step. \<open>main_step\<close> runs the capture loop
    (lines 174--189) over the program counter \<open>mpc\<close>, with the detection loop inlined,
    one \<open>push_back\<close> per step, and the queued \<open>show\<close> blocks run in \<open>M_Wait\<close>, each
    reading its slot then; \<open>input_step\<close> runs the input thread (lines 120--172) over
    \<open>ipc\<close>, with \<open>getline\<close> as libc++ has it; the record \<open>sys\<close> holds the shared
    state, the holder of \<open>dataMutex\<close>, the camera, keys, standard input and clock still
    to come, the windows and the crash. \<open>step\<close> lets either thread move, \<open>reach\<close> is
    the set of reachable states, \<open>run_sched\<close> runs a given schedule. The invariant
    \<open>sys_inv\<close> (the mutex holder agrees with the program counters; the buffer is whole
    outside the capture loop's block) is proved by rule induction. \<open>run_events\<close> is
    the coarse view: whole critical sections in the order the mutex grants them.
  \<^item> \<open>Serial\<close>: a simulation between the two views, by induction over reachable states.
  \<^item> \<open>Progress\<close>: the size of every image handled, and that each loop's pass ends.
  \<^item> \<open>Shutdown\<close>: \<open>main\<close>'s start-up (\<open>main_start\<close>), the exit status (\<open>outcome\<close>),
    the whole process (\<open>run_process\<close>) and how it ends.
  \<^item> This theory: properties that span the commands and the two threads.

  \<^bold>\<open>What is proved.\<close> Detection keeps the first \<open>min(k, maxFaces)\<close> faces, each
  200 by 200 from the current frame (C1), draws only those (C7), and the buffer never
  accumulates across frames (C2). Commands: capture then clear leaves no file and an
  empty buffer (C3); rename renames the newest file keeping its extension (C4) and
  overwrites a file that has the new name (C6); capture stores each face under its own
  name (C8), and a second capture in the same second overwrites the first one's files
  (C19); \<open>setmax\<close> sets the limit for a number (C9), reads its argument leniently
  (C20) and kills the program for \<open>abc\<close> (C5); a missing directory kills \<open>clear\<close> and
  \<open>rename\<close> and silently voids \<open>capture\<close> (C10). Concurrency: a handler never sees a
  half-written buffer (C11, the spec's property 6); \<open>faceCount\<close> stays in range (C12);
  every run is serializable into whole critical sections over the inputs read (C14);
  each pass of either loop ends (C15, C16); every buffered or displayed image is 200 by
  200 (C21); \<open>show\<close> followed by \<open>clear\<close> makes the queued block read a destroyed
  slot and ends the process (C22). Shutdown: the end of the camera stream never ends
  the process (C13); the capture loop ends only at the end of the stream or on Escape,
  whatever \<open>exit\<close> did (C17); status 0 only after the input thread has returned
  through the stop flag (C18).

  \<^bold>\<open>Bounds and environment.\<close> No fuel is used: every loop of the model is structural
  recursion over a list (regions, faces, schedules, events) or a step of the transition
  system; runs of the threads are finite schedules (\<open>run_sched\<close>, \<open>steps\<close>) and
  reachability is an inductive relation, so the theorems over \<open>reach\<close> hold for runs of
  any length. The camera, keys and standard input are finite lists: their end is
  \<open>cap.read\<close> failing, \<open>waitKey\<close> returning -1, and \<open>getline\<close> failing: one empty
  line at the end of a newline-terminated input, then \<open>command\<close> kept as it is (so an
  unterminated last line is dispatched again on every pass). The witnesses use a 640
  by 480 frame and a detector with two regions, enough to exercise the limit.

  \<^bold>\<open>Not modelled.\<close> Pixel values, the classifier's algorithm, video decoding and image
  codecs (external library); window contents (only which frame or face is shown); the
  one-second sleep and all timing; names with a \<open>/\<close> in \<open>rename\<close> (the model stops
  with \<open>Outside_directory\<close>); symbolic links. Camera frames are the frames
  \<open>cap.read\<close> delivers, never empty (an empty read ends the stream), so
  \<open>cvtColor\<close>'s empty-image error is unreachable from the camera. The unsynchronized
  \<open>bool\<close> \<open>stopInputThread\<close> is modelled as sequentially consistent: the data race it
  has in C++ (undefined behaviour) is a finding, not a theorem. The order in which the
  main dispatch queue runs \<open>show\<close>'s blocks is taken to be inside \<open>waitKey\<close>. A
  \<open>show\<close> block reads its slot of \<open>capturedFaces\<close> when it runs: the face then in the
  slot, or, past the end of the vector, a destroyed \<open>cv::Mat\<close>, modelled as
  \<open>imshow\<close>'s empty-image exception; a block whose slot moved when the vector
  reallocated (more faces than its capacity) also reads freed storage, which the model
  does not distinguish from a slot still in place.
\<close>

section \<open>Properties across components\<close>

text \<open>
  C3. \<open>capture\<close> followed by \<open>clear\<close>, on an existing directory and whatever the
  buffer held, leaves the buffer empty and no regular file in the directory.
\<close>

theorem capture_then_clear:
  assumes "dir st = Some l"
  shows "\<exists>b1 st1 b2 st2. handle_command clk ''capture'' st = Inr (b1, st1) \<and>
           handle_command clk' ''clear'' st1 = Inr (b2, st2) \<and>
           capturedFaces st2 = [] \<and> (\<exists>l2. dir st2 = Some l2 \<and> regular_names l2 = [])"
proof -
  obtain l1 where l1: "saveCapturedFaces clk (capturedFaces st) (Some l) = Some l1"
    using save_loop_keeps_Some [of clk 0 "capturedFaces st" l] by (auto simp: saveCapturedFaces_def)
  let ?st1 = "st\<lparr>dir := Some l1, out := out st @ [Saved]\<rparr>"
  have c: "handle_command clk ''capture'' st = Inr (stopInputThread st, ?st1)"
    using assms l1 by (simp add: handle_command_def parse_command_def)
  have "handle_command clk' ''clear'' ?st1 =
          Inr (stopInputThread st, ?st1\<lparr>capturedFaces := [], dir := Some (filter (\<lambda>(n, e). \<not> is_regular e) l1),
                                       out := out ?st1 @ [Cleared]\<rparr>)"
    by (simp add: handle_command_def parse_command_def clearCapturedFaces_def)
  with c show ?thesis by (auto simp: clear_no_regular)
qed

theorem capture_then_clear_witness:
  "\<exists>b1 st1 b2 st2.
     handle_command (clock_at 5) ''capture''
       ((app_init (Some [(''old.png'', Regular 1 \<lparr>mrows = 200, mcols = 200, mframe = 0,
                             msource = \<lparr>rx = 0, ry = 0, rwidth = 9, rheight = 9\<rparr>\<rparr>), (''sub'', Directory)]))
          \<lparr>capturedFaces := [\<lparr>mrows = 200, mcols = 200, mframe = 4,
                               msource = \<lparr>rx = 1, ry = 1, rwidth = 9, rheight = 9\<rparr>\<rparr>]\<rparr>) = Inr (b1, st1) \<and>
     handle_command (clock_at 6) ''clear'' st1 = Inr (b2, st2) \<and>
     capturedFaces st2 = [] \<and> (\<exists>l2. dir st2 = Some l2 \<and> regular_names l2 = [])"
  by (rule capture_then_clear) (simp add: app_init_def)

text \<open>
  C22. \<open>show\<close> followed by \<open>clear\<close> before the capture loop runs the queued blocks
  ends the process: \<open>show\<close> queues blocks that hold references to the vector's slots,
  \<open>clear\<close> destroys every slot, and the first block the capture loop runs reads a
  destroyed \<open>cv::Mat\<close> (undefined behaviour; an empty image, on which \<open>imshow\<close>
  throws). The spec says \<open>show\<close> displays the most recent faces.
\<close>

theorem show_then_clear_crashes:
  assumes "dir st = Some l" and "capturedFaces st \<noteq> []"
  shows "\<exists>b1 st1 b2 st2. handle_command clk ''show'' st = Inr (b1, st1) \<and>
           handle_command clk' ''clear'' st1 = Inr (b2, st2) \<and>
           capturedFaces st2 = [] \<and> pending st2 \<noteq> [] \<and>
           main_step det (s\<lparr>shared := st2, mpc := M_Wait\<rparr>) =
             terminate (Cv_failed Empty_image) (s\<lparr>shared := st2, mpc := M_Wait\<rparr>)"
proof -
  let ?st1 = "showCapturedFaces st"
  have c: "handle_command clk ''show'' st = Inr (stopInputThread st, ?st1)"
    by (simp add: handle_command_def parse_command_def showCapturedFaces_def)
  let ?st2 = "?st1\<lparr>capturedFaces := [], dir := Some (filter (\<lambda>(n, e). \<not> is_regular e) l),
                     out := out ?st1 @ [Cleared]\<rparr>"
  have d: "handle_command clk' ''clear'' ?st1 = Inr (stopInputThread st, ?st2)"
    using assms(1) by (simp add: handle_command_def parse_command_def clearCapturedFaces_def showCapturedFaces_def)
  obtain i ps where p: "pending ?st2 = i # ps"
    using assms(2) by (cases "pending st") (auto simp: showCapturedFaces_def neq_Nil_conv upt_conv_Cons)
  have "main_step det (s\<lparr>shared := ?st2, mpc := M_Wait\<rparr>) =
          terminate (Cv_failed Empty_image) (s\<lparr>shared := ?st2, mpc := M_Wait\<rparr>)"
    using p by (simp add: main_step_def)
  with c d p show ?thesis by fastforce
qed

theorem show_then_clear_crashes_witness:
  "\<exists>b1 st1 b2 st2.
     handle_command (clock_at 5) ''show''
       ((app_init (Some []))\<lparr>capturedFaces := [stored_face]\<rparr>) = Inr (b1, st1) \<and>
     handle_command (clock_at 6) ''clear'' st1 = Inr (b2, st2) \<and>
     capturedFaces st2 = [] \<and> pending st2 \<noteq> [] \<and>
     main_step two_faces ((sys_init (Some []) [] [] [] True (\<lambda>k. clock_at k))\<lparr>shared := st2, mpc := M_Wait\<rparr>) =
       terminate (Cv_failed Empty_image)
         ((sys_init (Some []) [] [] [] True (\<lambda>k. clock_at k))\<lparr>shared := st2, mpc := M_Wait\<rparr>)"
  by (rule show_then_clear_crashes) (simp_all add: app_init_def)

end
